theory Spec2Isabelle
  imports Main "HOL-Library.Word" "HOL-Library.Extended_Nat"
begin

unbundle bit_operations_syntax

section \<open>Data model\<close>

text \<open>
  The kernels work on flat row-major buffers of C \<^verbatim>\<open>int\<close>: a buffer is a list of 32-bit
  words, read as two's complement by \<open>sint\<close>. Addition and multiplication of words wrap
  around, which is what \<^verbatim>\<open>_mm256_add_epi32\<close> and \<^verbatim>\<open>_mm256_mullo_epi32\<close> are defined to do
  and what the scalar \<^verbatim>\<open>x + y\<close> does on the target machine (in C++ a signed overflow is
  undefined).

  A run of a kernel ends with its output buffer or with one of three failures, each
  undefined behaviour in C++: an access outside a buffer, a vector access at an address
  that is not 32-byte aligned, and an index expression such as \<^verbatim>\<open>i * n + j\<close> whose value
  does not fit \<^verbatim>\<open>int\<close>.
\<close>

type_synonym i32 = "32 word"

datatype error = OutOfBounds | Misaligned | IntOverflow

definition INT_MAX :: i32 where
  "INT_MAX = 0x7FFFFFFF"

text \<open>\<^verbatim>\<open>INT_MAX / 2\<close>, the threshold of the AVX variant.\<close>

definition INT_MAX_half :: i32 where
  "INT_MAX_half = INT_MAX div 2"

text \<open>\<^verbatim>\<open>std::min(a, b)\<close> on \<^verbatim>\<open>int\<close>: \<^verbatim>\<open>(b < a) ? b : a\<close>.\<close>

definition min_i32 :: "i32 \<Rightarrow> i32 \<Rightarrow> i32" where
  "min_i32 a b = (if b <s a then b else a)"

subsection \<open>The saturating combine of the two APSP variants\<close>

text \<open>
  The scalar variant: \<^verbatim>\<open>(x == INT_MAX || y == INT_MAX) ? INT_MAX : x + y\<close>.
\<close>

definition saturating_add_eq :: "i32 \<Rightarrow> i32 \<Rightarrow> i32" where
  "saturating_add_eq x y = (if x = INT_MAX \<or> y = INT_MAX then INT_MAX else x + y)"

text \<open>
  The scalar tail of the AVX variant:
  \<^verbatim>\<open>(x >= INT_MAX / 2 || y >= INT_MAX / 2) ? INT_MAX : x + y\<close>.
\<close>

definition saturating_add_half :: "i32 \<Rightarrow> i32 \<Rightarrow> i32" where
  "saturating_add_half x y =
     (if INT_MAX_half \<le>s x \<or> INT_MAX_half \<le>s y then INT_MAX else x + y)"

subsection \<open>One 32-bit lane of the AVX2 intrinsics\<close>

text \<open>\<^verbatim>\<open>_mm256_cmpgt_epi32(a, b)\<close>: all ones where \<open>a > b\<close> (signed), else zero.\<close>

definition cmpgt_epi32 :: "i32 \<Rightarrow> i32 \<Rightarrow> i32" where
  "cmpgt_epi32 a b = (if b <s a then - 1 else 0)"

text \<open>
  \<^verbatim>\<open>_mm256_blendv_epi8(a, b, mask)\<close> selects byte by byte: the byte of \<open>b\<close> where the top
  bit of the mask's byte is set, the byte of \<open>a\<close> elsewhere. A 32-bit lane has four bytes.
\<close>

definition blend_byte :: "nat \<Rightarrow> i32 \<Rightarrow> i32 \<Rightarrow> i32 \<Rightarrow> i32" where
  "blend_byte b x y m = (if bit m (8 * b + 7) then y else x) AND push_bit (8 * b) (mask 8)"

definition blendv_epi8 :: "i32 \<Rightarrow> i32 \<Rightarrow> i32 \<Rightarrow> i32" where
  "blendv_epi8 x y m =
     blend_byte 0 x y m OR blend_byte 1 x y m OR blend_byte 2 x y m OR blend_byte 3 x y m"

text \<open>\<^verbatim>\<open>_mm256_min_epi32\<close>: the signed minimum.\<close>

definition min_epi32 :: "i32 \<Rightarrow> i32 \<Rightarrow> i32" where
  "min_epi32 a b = (if a <s b then a else b)"

text \<open>
  The candidate of one lane in the vector loop of the AVX variant, with
  \<open>max_vec = INT_MAX / 2\<close> in every lane:
  \<^verbatim>\<open>
  x_valid = _mm256_cmpgt_epi32(max_vec, x_vec);
  y_valid = _mm256_cmpgt_epi32(max_vec, y_vec);
  valid   = _mm256_and_si256(x_valid, y_valid);
  z_vec   = _mm256_add_epi32(x_vec, y_vec);
  z_vec   = _mm256_blendv_epi8(_mm256_set1_epi32(INT_MAX), z_vec, valid);
  \<close>
\<close>

definition saturating_add_lane :: "i32 \<Rightarrow> i32 \<Rightarrow> i32 \<Rightarrow> i32" where
  "saturating_add_lane mx x y =
     (let x_valid = cmpgt_epi32 mx x;
          y_valid = cmpgt_epi32 mx y;
          valid = x_valid AND y_valid;
          z = x + y
      in blendv_epi8 INT_MAX z valid)"

subsection \<open>256-bit vectors\<close>

text \<open>A \<^verbatim>\<open>__m256i\<close> holds eight 32-bit lanes, lane 0 first.\<close>

type_synonym m256i = "i32 list"

definition mm256_set1_epi32 :: "i32 \<Rightarrow> m256i" where
  "mm256_set1_epi32 v = replicate 8 v"

definition mm256_setzero_si256 :: m256i where
  "mm256_setzero_si256 = replicate 8 0"

definition mm256_cmpgt_epi32 :: "m256i \<Rightarrow> m256i \<Rightarrow> m256i" where
  "mm256_cmpgt_epi32 a b = map2 cmpgt_epi32 a b"

definition mm256_and_si256 :: "m256i \<Rightarrow> m256i \<Rightarrow> m256i" where
  "mm256_and_si256 a b = map2 (AND) a b"

definition mm256_add_epi32 :: "m256i \<Rightarrow> m256i \<Rightarrow> m256i" where
  "mm256_add_epi32 a b = map2 (+) a b"

definition mm256_mullo_epi32 :: "m256i \<Rightarrow> m256i \<Rightarrow> m256i" where
  "mm256_mullo_epi32 a b = map2 (*) a b"

definition mm256_blendv_epi8 :: "m256i \<Rightarrow> m256i \<Rightarrow> m256i \<Rightarrow> m256i" where
  "mm256_blendv_epi8 a b m = map2 (\<lambda>(x, y) t. blendv_epi8 x y t) (zip a b) m"

definition mm256_min_epi32 :: "m256i \<Rightarrow> m256i \<Rightarrow> m256i" where
  "mm256_min_epi32 a b = map2 min_epi32 a b"

subsection \<open>Memory accesses\<close>

text \<open>
  An access \<^verbatim>\<open>buf[e]\<close> is given by the buffer and the value \<open>p\<close> of the index expression
  \<open>e\<close>. The source computes \<open>e\<close> in \<^verbatim>\<open>int\<close> from non-negative operands by \<open>*\<close> and \<open>+\<close>, so the
  computation overflows exactly when \<open>p\<close> exceeds \<open>INT_MAX = 2147483647\<close>; an index beyond
  the end of the buffer is out of bounds.
\<close>

definition load :: "i32 list \<Rightarrow> nat \<Rightarrow> error + i32" where
  "load buf p =
     (if 2147483647 < int p then Inl IntOverflow
      else if p < length buf then Inr (buf ! p)
      else Inl OutOfBounds)"

definition store :: "i32 list \<Rightarrow> nat \<Rightarrow> i32 \<Rightarrow> error + i32 list" where
  "store buf p v =
     (if 2147483647 < int p then Inl IntOverflow
      else if p < length buf then Inr (buf[p := v])
      else Inl OutOfBounds)"

text \<open>
  \<^verbatim>\<open>_mm256_load_si256(&buf[p])\<close> reads the eight elements \<open>buf[p .. p + 7]\<close> and
  \<^verbatim>\<open>_mm256_store_si256(&buf[p], v)\<close> overwrites them. Both are the aligned forms: the
  address must be a multiple of 32 bytes, or the access faults. The buffers of the two
  AVX programs come from \<^verbatim>\<open>_mm_malloc(\<dots>, 32)\<close>, so element 0 is aligned and element \<open>p\<close>,
  four bytes each, is aligned exactly when \<open>p\<close> is a multiple of 8.
\<close>

definition mm256_load_si256 :: "i32 list \<Rightarrow> nat \<Rightarrow> error + m256i" where
  "mm256_load_si256 buf p =
     (if 2147483647 < int p then Inl IntOverflow
      else if p mod 8 \<noteq> 0 then Inl Misaligned
      else if p + 8 \<le> length buf then Inr (take 8 (drop p buf))
      else Inl OutOfBounds)"

definition mm256_store_si256 :: "i32 list \<Rightarrow> nat \<Rightarrow> m256i \<Rightarrow> error + i32 list" where
  "mm256_store_si256 buf p v =
     (if 2147483647 < int p then Inl IntOverflow
      else if p mod 8 \<noteq> 0 then Inl Misaligned
      else if p + 8 \<le> length buf then Inr (take p buf @ v @ drop (p + 8) buf)
      else Inl OutOfBounds)"

text \<open>A \<^verbatim>\<open>for\<close> loop over a range whose body may fail: the first failure ends the loop.\<close>

fun for_each :: "('a \<Rightarrow> 's \<Rightarrow> error + 's) \<Rightarrow> 'a list \<Rightarrow> 's \<Rightarrow> error + 's" where
  "for_each body [] s = Inr s"
| "for_each body (x # xs) s = (case body x s of Inl e \<Rightarrow> Inl e | Inr s' \<Rightarrow> for_each body xs s')"

section \<open>The APSP kernel \<^verbatim>\<open>FloyD\<close>\<close>

subsection \<open>The copy phase\<close>

text \<open>
  Both variants start with
  \<^verbatim>\<open>
  #pragma omp parallel for collapse(2) schedule(static)
  for (i ...) for (j ...) r[i * n + j] = d[i * n + j];
  \<close>
  Every iteration writes a cell of \<open>r\<close> of its own and reads \<open>d\<close>, which nobody writes, and
  the threads meet at the barrier that ends the loop before the relaxation starts. So
  the order of the iterations does not show, and the phase is embedded in loop order.
\<close>

definition copy_cell :: "nat \<Rightarrow> i32 list \<Rightarrow> nat \<Rightarrow> nat \<Rightarrow> i32 list \<Rightarrow> error + i32 list" where
  "copy_cell n d i j r =
     (case load d (i * n + j) of Inl e \<Rightarrow> Inl e | Inr v \<Rightarrow> store r (i * n + j) v)"

definition copy_phase :: "nat \<Rightarrow> i32 list \<Rightarrow> i32 list \<Rightarrow> error + i32 list" where
  "copy_phase n d r = for_each (\<lambda>i. for_each (copy_cell n d i) [0..<n]) [0..<n] r"

subsection \<open>The relaxation phase: one task per pivot\<close>

text \<open>
  In both variants the pragma of the relaxation phase sits on the loop over the pivots:
  \<^verbatim>\<open>
  #pragma omp parallel for schedule(dynamic)
  for (int k = 0; k < n; k++) { for (int i ...) { ... for (j ...) ... } }
  \<close>
  Each iteration \<open>k\<close> is a task handed to a thread of the team. A task runs its own
  statements in program order; nothing orders the statements of two tasks (the only
  barrier is the one that ends the loop), and all tasks read and write the shared buffer
  \<open>r\<close> with plain loads and stores.

  A task is the list of its memory operations in program order, and its locals. The
  scalar statement
  \<^verbatim>\<open>
  int x = r[i * n + k];
  int y = r[k * n + j];
  int z = ... ? INT_MAX : x + y;
  r[i * n + j] = min(r[i * n + j], z);
  \<close>
  is two operations: \<open>Load k i j\<close> reads the three entries and computes the minimum,
  \<open>Store i j\<close> writes it to \<open>r[i * n + j]\<close>. One step of the vector loop is \<open>VLoad k i j\<close>
  (the two vector loads and the lane arithmetic) and \<open>VStore i j\<close>; \<open>Broadcast k i\<close> is
  \<^verbatim>\<open>x_vec = _mm256_set1_epi32(r[i * n + k])\<close> at the head of a row of the AVX variant.
\<close>

datatype op =
    Load nat nat nat
  | Store nat nat
  | Broadcast nat nat
  | VLoad nat nat nat
  | VStore nat nat

text \<open>
  The locals of a task: the broadcast \<open>x_vec\<close>, the vector \<open>min_vec\<close> and the scalar
  minimum on their way to the buffer.
\<close>

record locals =
  x_vec :: m256i
  min_vec :: m256i
  min_val :: i32

definition locals0 :: locals where
  "locals0 = \<lparr>x_vec = mm256_setzero_si256, min_vec = mm256_setzero_si256, min_val = 0\<rparr>"

text \<open>
  One operation of a task on the shared buffer. The parameter \<open>sat\<close> is the saturating
  combine of the scalar statement: \<open>saturating_add_eq\<close> in the scalar variant,
  \<open>saturating_add_half\<close> in the tail loop of the AVX variant. The vector step is
  \<^verbatim>\<open>
  y_vec    = _mm256_load_si256(&r[k * n + j]);
  curr_vec = _mm256_load_si256(&r[i * n + j]);
  x_valid  = _mm256_cmpgt_epi32(max_vec, x_vec);
  y_valid  = _mm256_cmpgt_epi32(max_vec, y_vec);
  valid    = _mm256_and_si256(x_valid, y_valid);
  z_vec    = _mm256_add_epi32(x_vec, y_vec);
  z_vec    = _mm256_blendv_epi8(_mm256_set1_epi32(INT_MAX), z_vec, valid);
  min_vec  = _mm256_min_epi32(curr_vec, z_vec);
  _mm256_store_si256(&r[i * n + j], min_vec);
  \<close>
  with \<open>max_vec = _mm256_set1_epi32(INT_MAX / 2)\<close>.
\<close>

fun exec :: "(i32 \<Rightarrow> i32 \<Rightarrow> i32) \<Rightarrow> nat \<Rightarrow> op \<Rightarrow> i32 list \<times> locals \<Rightarrow> error + i32 list \<times> locals" where
  "exec sat n (Load k i j) (r, l) =
     (case load r (i * n + k) of Inl e \<Rightarrow> Inl e | Inr x \<Rightarrow>
      case load r (k * n + j) of Inl e \<Rightarrow> Inl e | Inr y \<Rightarrow>
      case load r (i * n + j) of Inl e \<Rightarrow> Inl e | Inr c \<Rightarrow>
      Inr (r, l\<lparr>min_val := min_i32 c (sat x y)\<rparr>))"
| "exec sat n (Store i j) (r, l) =
     (case store r (i * n + j) (min_val l) of Inl e \<Rightarrow> Inl e | Inr r' \<Rightarrow> Inr (r', l))"
| "exec sat n (Broadcast k i) (r, l) =
     (case load r (i * n + k) of Inl e \<Rightarrow> Inl e | Inr x \<Rightarrow>
      Inr (r, l\<lparr>x_vec := mm256_set1_epi32 x\<rparr>))"
| "exec sat n (VLoad k i j) (r, l) =
     (case mm256_load_si256 r (k * n + j) of Inl e \<Rightarrow> Inl e | Inr y_vec \<Rightarrow>
      case mm256_load_si256 r (i * n + j) of Inl e \<Rightarrow> Inl e | Inr curr_vec \<Rightarrow>
      let max_vec = mm256_set1_epi32 INT_MAX_half;
          x_valid = mm256_cmpgt_epi32 max_vec (x_vec l);
          y_valid = mm256_cmpgt_epi32 max_vec y_vec;
          valid = mm256_and_si256 x_valid y_valid;
          z_vec = mm256_add_epi32 (x_vec l) y_vec;
          z_vec = mm256_blendv_epi8 (mm256_set1_epi32 INT_MAX) z_vec valid
      in Inr (r, l\<lparr>min_vec := mm256_min_epi32 curr_vec z_vec\<rparr>))"
| "exec sat n (VStore i j) (r, l) =
     (case mm256_store_si256 r (i * n + j) (min_vec l) of Inl e \<Rightarrow> Inl e | Inr r' \<Rightarrow> Inr (r', l))"

text \<open>
  The task of pivot \<open>k\<close> in the scalar variant: the loops over \<open>i\<close> and \<open>j\<close> around the
  scalar statement. (\<^verbatim>\<open>#pragma omp simd\<close> on the loop over \<open>j\<close> allows the compiler to
  vectorise it; the task has the statements one by one.)
\<close>

definition scalar_cols :: "nat \<Rightarrow> nat \<Rightarrow> nat \<Rightarrow> nat \<Rightarrow> op list" where
  "scalar_cols n k i j = concat (map (\<lambda>j. [Load k i j, Store i j]) [j..<n])"

definition ops_scalar :: "nat \<Rightarrow> nat \<Rightarrow> op list" where
  "ops_scalar n k = concat (map (\<lambda>i. scalar_cols n k i 0) [0..<n])"

text \<open>
  The task of pivot \<open>k\<close> in the AVX variant. In every row the broadcast comes first, then
  the vector loop \<^verbatim>\<open>for (j = 0; j <= n - 8; j += 8)\<close>, then the tail loop
  \<^verbatim>\<open>for (; j < n; j++)\<close> from the \<open>j\<close> where the vector loop stopped. (\<open>j \<le> n - 8\<close> on
  \<^verbatim>\<open>int\<close> is \<open>j + 8 \<le> n\<close>.)
\<close>

function avx_cols :: "nat \<Rightarrow> nat \<Rightarrow> nat \<Rightarrow> nat \<Rightarrow> op list" where
  "avx_cols n k i j =
     (if j + 8 \<le> n then VLoad k i j # VStore i j # avx_cols n k i (j + 8)
      else scalar_cols n k i j)"
  by pat_completeness auto
termination
  by (relation "measure (\<lambda>(n, k, i, j). n - j)") auto

definition ops_avx :: "nat \<Rightarrow> nat \<Rightarrow> op list" where
  "ops_avx n k = concat (map (\<lambda>i. Broadcast k i # avx_cols n k i 0) [0..<n])"

declare avx_cols.simps [simp del]

subsection \<open>Schedules\<close>

text \<open>
  The state of the relaxation phase is the shared buffer and, for every pivot, what is
  left of its task. A step of pivot \<open>k\<close> performs the next operation of that task. A
  schedule is the list of the pivots that step, one after the other; the first failure
  ends the run.
\<close>

type_synonym task = "op list \<times> locals"

definition step ::
  "(i32 \<Rightarrow> i32 \<Rightarrow> i32) \<Rightarrow> nat \<Rightarrow> nat \<Rightarrow> i32 list \<times> task list \<Rightarrow> error + i32 list \<times> task list" where
  "step sat n k s =
     (case s of (r, ts) \<Rightarrow>
        if k < length ts then
          (case ts ! k of
             ([], l) \<Rightarrow> Inr (r, ts)
           | (p # ps, l) \<Rightarrow>
               (case exec sat n p (r, l) of Inl e \<Rightarrow> Inl e
                | Inr (r', l') \<Rightarrow> Inr (r', ts[k := (ps, l')])))
        else Inr (r, ts))"

definition relax ::
  "(i32 \<Rightarrow> i32 \<Rightarrow> i32) \<Rightarrow> (nat \<Rightarrow> nat \<Rightarrow> op list) \<Rightarrow> nat \<Rightarrow> nat list \<Rightarrow> i32 list \<Rightarrow> error + i32 list" where
  "relax sat ops n sched r =
     (case for_each (step sat n) sched (r, map (\<lambda>k. (ops n k, locals0)) [0..<n]) of
        Inl e \<Rightarrow> Inl e
      | Inr (r', ts) \<Rightarrow> Inr r')"

text \<open>
  The two kernels, run under a schedule of the relaxation phase. With a prefix of a
  schedule the result is the buffer at that moment of the run.
\<close>

definition FloyD_scalar :: "i32 list \<Rightarrow> i32 list \<Rightarrow> nat \<Rightarrow> nat list \<Rightarrow> error + i32 list" where
  "FloyD_scalar r d n sched =
     (case copy_phase n d r of Inl e \<Rightarrow> Inl e
      | Inr r' \<Rightarrow> relax saturating_add_eq ops_scalar n sched r')"

definition FloyD_avx :: "i32 list \<Rightarrow> i32 list \<Rightarrow> nat \<Rightarrow> nat list \<Rightarrow> error + i32 list" where
  "FloyD_avx r d n sched =
     (case copy_phase n d r of Inl e \<Rightarrow> Inl e
      | Inr r' \<Rightarrow> relax saturating_add_half ops_avx n sched r')"

text \<open>
  A schedule is a run of the whole phase when it names pivots below \<open>n\<close> only and gives
  every pivot as many steps as its task has operations. Then every task runs to its end,
  in program order, and this is all that \<^verbatim>\<open>parallel for\<close> on the loop over \<open>k\<close> asks of a
  team with enough threads.
\<close>

definition admitted :: "(nat \<Rightarrow> nat \<Rightarrow> op list) \<Rightarrow> nat \<Rightarrow> nat list \<Rightarrow> bool" where
  "admitted ops n sched \<longleftrightarrow>
     list_all (\<lambda>k. k < n) sched \<and>
     list_all (\<lambda>k. count_list sched k = length (ops n k)) [0..<n]"

text \<open>
  The schedule of a single thread, and of a build without OpenMP, where the pragma is
  ignored: pivot 0 to its end, then pivot 1, and so on.
\<close>

definition in_order :: "(nat \<Rightarrow> nat \<Rightarrow> op list) \<Rightarrow> nat \<Rightarrow> nat list" where
  "in_order ops n = concat (map (\<lambda>k. replicate (length (ops n k)) k) [0..<n])"

text \<open>
  Pivots are processed strictly in order when no step of a pivot comes before a step of
  a smaller pivot: the schedule is sorted.
\<close>

definition pivots_in_order :: "nat list \<Rightarrow> bool" where
  "pivots_in_order sched \<longleftrightarrow> sorted sched"

section \<open>The matrix-multiply kernel \<^verbatim>\<open>matmul\<close>\<close>

text \<open>
  The source fixes the dimensions as \<^verbatim>\<open>constexpr int M = 2000, N = 1000, K = 3000\<close>; the
  model takes them as the parameters \<open>M\<close>, \<open>N\<close>, \<open>K\<close>, so that the kernels can also be
  run on small matrices.

  The statement \<^verbatim>\<open>res[i * K + j] += A[i * N + d] * B[d * K + j]\<close> of the scalar kernel
  and of the tail loop of the AVX kernel.
\<close>

definition accumulate :: "nat \<Rightarrow> nat \<Rightarrow> i32 list \<Rightarrow> i32 list \<Rightarrow> nat \<Rightarrow> nat \<Rightarrow> nat \<Rightarrow> i32 list \<Rightarrow> error + i32 list" where
  "accumulate N K A B i j d res =
     (case load A (i * N + d) of Inl e \<Rightarrow> Inl e | Inr a \<Rightarrow>
      case load B (d * K + j) of Inl e \<Rightarrow> Inl e | Inr b \<Rightarrow>
      case load res (i * K + j) of Inl e \<Rightarrow> Inl e | Inr c \<Rightarrow>
      store res (i * K + j) (c + a * b))"

text \<open>
  The scalar kernel of \<^verbatim>\<open>matmul.cpp\<close>: three nested loops around that statement, under
  \<^verbatim>\<open>#pragma omp parallel for collapse(2)\<close> on the loops over \<open>i\<close> and \<open>j\<close>. An iteration
  \<open>(i, j)\<close> reads and writes the one cell \<open>res[i * K + j]\<close>, which no other iteration
  touches, and reads \<open>A\<close> and \<open>B\<close>, which nobody writes. So the order of the iterations does
  not show, and the kernel is embedded in loop order.
\<close>

definition matmul :: "nat \<Rightarrow> nat \<Rightarrow> nat \<Rightarrow> i32 list \<Rightarrow> i32 list \<Rightarrow> i32 list \<Rightarrow> error + i32 list" where
  "matmul M N K A B res =
     for_each (\<lambda>i. for_each (\<lambda>j. for_each (accumulate N K A B i j) [0..<N]) [0..<K]) [0..<M] res"

text \<open>
  The AVX kernel has no pragma: it is one sequential loop nest. Its vector loop,
  \<^verbatim>\<open>for (d = 0; d < N; d += 8)\<close>:
  \<^verbatim>\<open>
  a_vec = _mm256_set1_epi32(A[i * N + d]);
  b_vec = _mm256_load_si256(&B[d * K + j]);
  sum_vec = _mm256_add_epi32(sum_vec, _mm256_mullo_epi32(a_vec, b_vec));
  \<close>
  It returns the \<open>d\<close> it stopped at together with \<open>sum_vec\<close>.
\<close>

function vec_loop ::
  "nat \<Rightarrow> nat \<Rightarrow> i32 list \<Rightarrow> i32 list \<Rightarrow> nat \<Rightarrow> nat \<Rightarrow> nat \<Rightarrow> m256i \<Rightarrow> error + nat \<times> m256i" where
  "vec_loop N K A B i j d sum_vec =
     (if d < N then
        (case load A (i * N + d) of Inl e \<Rightarrow> Inl e | Inr a \<Rightarrow>
         case mm256_load_si256 B (d * K + j) of Inl e \<Rightarrow> Inl e | Inr b_vec \<Rightarrow>
           vec_loop N K A B i j (d + 8)
             (mm256_add_epi32 sum_vec (mm256_mullo_epi32 (mm256_set1_epi32 a) b_vec)))
      else Inr (d, sum_vec))"
  by pat_completeness auto
termination
  by (relation "measure (\<lambda>(N, K, A, B, i, j, d, sum_vec). N - d)") auto

declare vec_loop.simps [simp del]

text \<open>
  One output cell: the vector loop from \<open>sum_vec = 0\<close>, the store of all eight lanes of
  \<open>sum_vec\<close> at \<open>res[i * K + j]\<close>, then the tail loop \<^verbatim>\<open>for (; d < N; d++)\<close> from the
  \<open>d\<close> the vector loop left.
\<close>

definition avx_cell :: "nat \<Rightarrow> nat \<Rightarrow> i32 list \<Rightarrow> i32 list \<Rightarrow> nat \<Rightarrow> nat \<Rightarrow> i32 list \<Rightarrow> error + i32 list" where
  "avx_cell N K A B i j res =
     (case vec_loop N K A B i j 0 mm256_setzero_si256 of Inl e \<Rightarrow> Inl e | Inr (d, sum_vec) \<Rightarrow>
      case mm256_store_si256 res (i * K + j) sum_vec of Inl e \<Rightarrow> Inl e | Inr res' \<Rightarrow>
      for_each (accumulate N K A B i j) [d..<N] res')"

definition matmul_avx :: "nat \<Rightarrow> nat \<Rightarrow> nat \<Rightarrow> i32 list \<Rightarrow> i32 list \<Rightarrow> i32 list \<Rightarrow> error + i32 list" where
  "matmul_avx M N K A B res =
     for_each (\<lambda>i. for_each (avx_cell N K A B i) [0..<K]) [0..<M] res"

subsection \<open>Concrete inputs\<close>

text \<open>
  The buffers of \<^verbatim>\<open>main\<close> in the two matmul programs: \<open>A\<close> filled with 100, \<open>B\<close> with 50,
  \<open>res\<close> with 0.
\<close>

definition main_A :: "i32 list" where
  "main_A = replicate (2000 * 1000) 100"

definition main_B :: "i32 list" where
  "main_B = replicate (1000 * 3000) 50"

definition main_res :: "i32 list" where
  "main_res = replicate (2000 * 3000) 0"

text \<open>The same operands for a contraction dimension of 999, which is not a multiple of 8.\<close>

definition tail_A :: "i32 list" where
  "tail_A = replicate (2000 * 999) 100"

definition tail_B :: "i32 list" where
  "tail_B = replicate (999 * 3000) 50"

text \<open>The 2 by 2 operands with the rows \<open>[1, 2]\<close>, \<open>[3, 4]\<close> and \<open>[5, 6]\<close>, \<open>[7, 8]\<close>.\<close>

definition spec_A :: "i32 list" where "spec_A = [1, 2, 3, 4]"

definition spec_B :: "i32 list" where "spec_B = [5, 6, 7, 8]"

text \<open>
  A distance matrix on four vertices, with \<open>INT_MAX\<close> for the two absent edges, and its
  shortest distances.
\<close>

definition D4 :: "i32 list" where
  "D4 = [0, 3, INT_MAX, 7,  3, 0, 1, INT_MAX,  INT_MAX, 1, 0, 2,  7, INT_MAX, 2, 0]"

definition R4 :: "i32 list" where
  "R4 = [0, 3, 4, 6,  3, 0, 1, 3,  4, 1, 0, 2,  6, 3, 2, 0]"

text \<open>The same matrix with 7 instead of 6 as the distance from vertex 0 to vertex 3.\<close>

definition R4_late :: "i32 list" where
  "R4_late = [0, 3, 4, 7,  3, 0, 1, 3,  4, 1, 0, 2,  6, 3, 2, 0]"

text \<open>
  Two schedules for \<open>n = 4\<close>, where a task of the scalar variant has \<open>2 * 16 = 32\<close>
  operations, 8 in every row.

  In \<open>late_pivot\<close> the thread that has finished pivot 0 goes on with pivot 2 and gets
  through its row 0 before the thread that holds pivot 1 performs its first operation.

  In \<open>stale_store\<close> pivots 0 and 1 run one after the other; then pivot 3 gets as far as
  the load of cell \<open>(0, 3)\<close>, pivot 2 runs its row 0, and only then pivot 3 stores what it
  has loaded.

  In both, never more than two pivots are under way at a time.
\<close>

definition late_pivot :: "nat list" where
  "late_pivot = replicate 32 0 @ replicate 8 2 @ replicate 32 1 @ replicate 24 2 @ replicate 32 3"

definition stale_store :: "nat list" where
  "stale_store = replicate 32 0 @ replicate 32 1 @ replicate 7 3 @ replicate 8 2 @ [3] @
     replicate 24 2 @ replicate 24 3"

text \<open>
  The same two schedules for the AVX variant, where a row of \<open>n = 4\<close> has the broadcast
  and the 8 operations of the tail loop.
\<close>

definition late_pivot_avx :: "nat list" where
  "late_pivot_avx =
     replicate 36 0 @ replicate 9 2 @ replicate 36 1 @ replicate 27 2 @ replicate 36 3"

definition stale_store_avx :: "nat list" where
  "stale_store_avx = replicate 36 0 @ replicate 36 1 @ replicate 8 3 @ replicate 9 2 @ [3] @
     replicate 27 2 @ replicate 27 3"

text \<open>
  A schedule of the AVX variant for \<open>n = 8\<close>, where a row is the broadcast and one
  vector step, 3 operations, and a task has 24. Pivot 0 runs first. Then pivot 2 takes
  the broadcast and the vector load of its row 0, pivot 1 runs its row 0, and only then
  pivot 2 stores the vector it has computed. The rest runs pivot after pivot.
\<close>

definition stale_vstore :: "nat list" where
  "stale_vstore = replicate 24 0 @ [2, 2] @ [1, 1, 1] @ [2] @ replicate 21 1 @ replicate 21 2 @
     replicate 24 3 @ replicate 24 4 @ replicate 24 5 @ replicate 24 6 @ replicate 24 7"

text \<open>
  The path graphs on eight and on nine vertices: an edge of weight 1 between \<open>i\<close> and
  \<open>i + 1\<close>, the sentinel elsewhere off the diagonal. Eight is the lane width, nine is not
  a multiple of it.
\<close>

definition chain8 :: "i32 list" where
  "chain8 = map (\<lambda>q. if q div 8 = q mod 8 then 0
                       else if q div 8 + 1 = q mod 8 \<or> q mod 8 + 1 = q div 8 then 1
                       else INT_MAX) [0..<64]"

definition chain9 :: "i32 list" where
  "chain9 = map (\<lambda>q. if q div 9 = q mod 9 then 0
                       else if q div 9 + 1 = q mod 9 \<or> q mod 9 + 1 = q div 9 then 1
                       else INT_MAX) [0..<81]"

text \<open>
  Two symmetric distance matrices with zero diagonal and non-negative weights, some of
  them close to \<open>INT_MAX / 2\<close>.
\<close>

definition D3_large :: "i32 list" where
  "D3_large = [0, 0x40000000, INT_MAX,  0x40000000, 0, 1,  INT_MAX, 1, 0]"

definition D4_large :: "i32 list" where
  "D4_large = [0, 0x3FFFFFFE, INT_MAX, INT_MAX,  0x3FFFFFFE, 0, 5, INT_MAX,
               INT_MAX, 5, 0, 1,  INT_MAX, INT_MAX, 1, 0]"

section \<open>Specification\<close>

subsection \<open>Shortest paths\<close>

text \<open>
  Distances are natural numbers or \<open>\<infinity>\<close> (no path). A path from \<open>i\<close> to \<open>j\<close> is given by
  the list of its intermediate vertices; its weight is the sum of the weights of its
  edges. The shortest distance from \<open>i\<close> to \<open>j\<close> in a graph on the vertices \<open>0 .. n - 1\<close>
  is the infimum of the weights of all such paths.
\<close>

type_synonym weights = "nat \<Rightarrow> nat \<Rightarrow> enat"

fun path_weight :: "weights \<Rightarrow> nat \<Rightarrow> nat list \<Rightarrow> nat \<Rightarrow> enat" where
  "path_weight w i [] j = w i j"
| "path_weight w i (x # xs) j = w i x + path_weight w x xs j"

definition shortest :: "weights \<Rightarrow> nat \<Rightarrow> nat \<Rightarrow> nat \<Rightarrow> enat" where
  "shortest w n i j = Inf {path_weight w i xs j | xs. set xs \<subseteq> {..<n}}"

text \<open>
  The pure reference: repeated pivot relaxation on distances,
  \<open>z = R[i][k] + R[k][j]\<close>, \<open>R[i][j] = min(R[i][j], z)\<close>, one pivot after the other.
\<close>

fun apsp_ref :: "weights \<Rightarrow> nat \<Rightarrow> nat \<Rightarrow> nat \<Rightarrow> enat" where
  "apsp_ref w 0 i j = w i j"
| "apsp_ref w (Suc k) i j = min (apsp_ref w k i j) (apsp_ref w k i k + apsp_ref w k k j)"

text \<open>Reading a buffer entry as a distance: the sentinel \<open>INT_MAX\<close> stands for \<open>\<infinity>\<close>.\<close>

definition dec :: "i32 \<Rightarrow> enat" where
  "dec v = (if v = INT_MAX then \<infinity> else enat (nat (sint v)))"

text \<open>
  The inputs of the kernel: a square matrix that is symmetric, with a zero diagonal and
  no negative entry (the sentinel stands for an absent edge).
\<close>

definition apsp_valid :: "i32 list \<Rightarrow> nat \<Rightarrow> bool" where
  "apsp_valid d n \<longleftrightarrow>
     length d = n * n \<and>
     list_all (\<lambda>i. d ! (i * n + i) = 0 \<and>
       list_all (\<lambda>j. d ! (i * n + j) = d ! (j * n + i) \<and> 0 \<le>s d ! (i * n + j)) [0..<n]) [0..<n]"

definition weights_of :: "i32 list \<Rightarrow> nat \<Rightarrow> weights" where
  "weights_of d n = (\<lambda>i j. dec (d ! (i * n + j)))"

subsection \<open>Matrix products\<close>

text \<open>
  The dot product of row \<open>i\<close> of \<open>A\<close> and column \<open>j\<close> of \<open>B\<close>, and the sum that lane \<open>l\<close> of
  the AVX kernel collects for the cell \<open>(i, j)\<close>: the terms \<open>d = 0, 8, 16, \<dots>\<close> only, taken
  from column \<open>j + l\<close>. All in wrapping 32-bit arithmetic.
\<close>

definition dot :: "nat \<Rightarrow> nat \<Rightarrow> i32 list \<Rightarrow> i32 list \<Rightarrow> nat \<Rightarrow> nat \<Rightarrow> i32" where
  "dot N K A B i j = (\<Sum>d<N. A ! (i * N + d) * B ! (d * K + j))"

definition lane_sum :: "nat \<Rightarrow> nat \<Rightarrow> i32 list \<Rightarrow> i32 list \<Rightarrow> nat \<Rightarrow> nat \<Rightarrow> nat \<Rightarrow> i32" where
  "lane_sum N K A B i j l = (\<Sum>t<(N + 7) div 8. A ! (i * N + 8 * t) * B ! (8 * t * K + j + l))"

section \<open>Invariants used in the proofs\<close>

text \<open>Progress of the scalar matmul kernel: the cells done so far hold their old value plus the dot product.\<close>

definition row_done :: "nat \<Rightarrow> nat \<Rightarrow> i32 list \<Rightarrow> i32 list \<Rightarrow> i32 list \<Rightarrow> nat \<Rightarrow> nat \<Rightarrow> i32 list \<Rightarrow> bool" where
  "row_done N K A B res i j t \<longleftrightarrow>
     length t = length res \<and>
     (\<forall>q<length res. t ! q =
        (if i * K \<le> q \<and> q < i * K + j then res ! q + dot N K A B i (q - i * K) else res ! q))"

definition rows_done :: "nat \<Rightarrow> nat \<Rightarrow> i32 list \<Rightarrow> i32 list \<Rightarrow> i32 list \<Rightarrow> nat \<Rightarrow> i32 list \<Rightarrow> bool" where
  "rows_done N K A B res i t \<longleftrightarrow>
     length t = length res \<and>
     (\<forall>q<length res. t ! q =
        (if q < i * K then res ! q + dot N K A B (q div K) (q mod K) else res ! q))"

section \<open>Facts about the lane operations\<close>


lemma INT_MAX_half_eq: "INT_MAX_half = 0x3FFFFFFF"
  by (simp add: INT_MAX_half_def INT_MAX_def)

lemma sint_INT_MAX_half: "sint INT_MAX_half = 1073741823"
  by (simp add: INT_MAX_half_eq)







lemma min_epi32_eq: "min_epi32 a b = min_i32 a b"
  by (auto simp add: min_epi32_def min_i32_def word_sless_alt intro: signed_word_eqI)

lemma sint_min_i32_le: "sint (min_i32 a z) \<le> sint a"
  by (simp add: min_i32_def word_sless_alt)

section \<open>Accesses that succeed\<close>

lemma load_ok: "p < length buf \<Longrightarrow> p \<le> 2147483647 \<Longrightarrow> load buf p = Inr (buf ! p)"
  by (simp add: load_def)

lemma store_ok: "p < length buf \<Longrightarrow> p \<le> 2147483647 \<Longrightarrow> store buf p v = Inr (buf[p := v])"
  by (simp add: store_def)

lemma mm256_load_ok:
  "p + 8 \<le> length buf \<Longrightarrow> p \<le> 2147483647 \<Longrightarrow> p mod 8 = 0 \<Longrightarrow>
   mm256_load_si256 buf p = Inr (take 8 (drop p buf))"
  by (simp add: mm256_load_si256_def)

lemma mm256_store_ok:
  "p + 8 \<le> length buf \<Longrightarrow> p \<le> 2147483647 \<Longrightarrow> p mod 8 = 0 \<Longrightarrow>
   mm256_store_si256 buf p v = Inr (take p buf @ v @ drop (p + 8) buf)"
  by (simp add: mm256_store_si256_def)

lemma mm256_load_misaligned:
  "p \<le> 2147483647 \<Longrightarrow> p mod 8 \<noteq> 0 \<Longrightarrow> mm256_load_si256 buf p = Inl Misaligned"
  by (simp add: mm256_load_si256_def)

text \<open>
  The vector step of the kernel computes, in each of its eight lanes, the minimum of the
  entry and the lane's saturating combine.
\<close>

lemma exec_VLoad:
  assumes "k * n + j + 8 \<le> length r" "i * n + j + 8 \<le> length r"
    and "(k * n + j) mod 8 = 0" "(i * n + j) mod 8 = 0" "length r \<le> 2147483647"
    and "x_vec l = mm256_set1_epi32 x"
  shows "exec sat n (VLoad k i j) (r, l) =
    Inr (r, l\<lparr>min_vec := map (\<lambda>q. min_i32 (r ! (i * n + j + q))
      (saturating_add_lane INT_MAX_half x (r ! (k * n + j + q)))) [0..<8]\<rparr>)"
proof -
  let ?y = "take 8 (drop (k * n + j) r)" and ?c = "take 8 (drop (i * n + j) r)"
  let ?v = "mm256_min_epi32 ?c
      (mm256_blendv_epi8 (mm256_set1_epi32 INT_MAX)
        (mm256_add_epi32 (mm256_set1_epi32 x) ?y)
        (mm256_and_si256 (mm256_cmpgt_epi32 (mm256_set1_epi32 INT_MAX_half) (mm256_set1_epi32 x))
           (mm256_cmpgt_epi32 (mm256_set1_epi32 INT_MAX_half) ?y)))"
  have y: "mm256_load_si256 r (k * n + j) = Inr ?y"
    using assms(1,3,5) by (intro mm256_load_ok) simp_all
  have c: "mm256_load_si256 r (i * n + j) = Inr ?c"
    using assms(2,4,5) by (intro mm256_load_ok) simp_all
  have "?v = map (\<lambda>q. min_i32 (r ! (i * n + j + q))
      (saturating_add_lane INT_MAX_half x (r ! (k * n + j + q)))) [0..<8]"
  proof (rule nth_equalityI)
    show "length ?v = length (map (\<lambda>q. min_i32 (r ! (i * n + j + q))
      (saturating_add_lane INT_MAX_half x (r ! (k * n + j + q)))) [0..<8])"
      using assms(1,2)
      by (simp add: mm256_min_epi32_def mm256_blendv_epi8_def
          mm256_set1_epi32_def mm256_add_epi32_def mm256_and_si256_def mm256_cmpgt_epi32_def)
    fix q assume "q < length ?v"
    then have q: "q < 8" using assms(1,2)
      by (simp add: mm256_min_epi32_def mm256_blendv_epi8_def
          mm256_set1_epi32_def mm256_add_epi32_def mm256_and_si256_def mm256_cmpgt_epi32_def)
    have "?v ! q = min_i32 (r ! (i * n + j + q))
        (saturating_add_lane INT_MAX_half x (r ! (k * n + j + q)))"
      using q assms(1,2)
      by (simp add: mm256_min_epi32_def mm256_blendv_epi8_def
          mm256_set1_epi32_def mm256_add_epi32_def mm256_and_si256_def mm256_cmpgt_epi32_def
          min_epi32_eq saturating_add_lane_def Let_def)
    moreover have "map (\<lambda>q. min_i32 (r ! (i * n + j + q))
        (saturating_add_lane INT_MAX_half x (r ! (k * n + j + q)))) [0..<8] ! q =
      min_i32 (r ! (i * n + j + q)) (saturating_add_lane INT_MAX_half x (r ! (k * n + j + q)))"
      using q by (simp del: upt_Suc add: nth_map [of q "[0..<8]"])
    ultimately show "?v ! q = map (\<lambda>q. min_i32 (r ! (i * n + j + q))
      (saturating_add_lane INT_MAX_half x (r ! (k * n + j + q)))) [0..<8] ! q"
      by simp
  qed
  then show ?thesis by (simp add: y c Let_def assms(6))
qed

section \<open>Saturation\<close>



text \<open>
  C6. The two policies differ: at \<open>x = INT_MAX / 2\<close> and \<open>y = 1\<close> the sum \<open>2^30\<close> lies
  above \<open>INT_MAX / 2\<close> and below \<open>INT_MAX\<close>; the scalar variant returns the sum, the AVX
  variant the sentinel.
\<close>

theorem saturating_policies_differ:
  "\<exists>x y. sint INT_MAX_half < sint x + sint y \<and> sint x + sint y < sint INT_MAX \<and>
     saturating_add_eq x y = x + y \<and> saturating_add_half x y = INT_MAX \<and>
     saturating_add_eq x y \<noteq> saturating_add_half x y"
proof -
  have "sint INT_MAX_half < sint (0x3FFFFFFF :: i32) + sint (1 :: i32) \<and>
     sint (0x3FFFFFFF :: i32) + sint (1 :: i32) < sint INT_MAX \<and>
     saturating_add_eq 0x3FFFFFFF 1 = 0x3FFFFFFF + 1 \<and>
     saturating_add_half 0x3FFFFFFF 1 = INT_MAX \<and>
     saturating_add_eq 0x3FFFFFFF 1 \<noteq> saturating_add_half 0x3FFFFFFF 1"
    by (simp add: saturating_add_eq_def saturating_add_half_def INT_MAX_half_eq INT_MAX_def)
  then show ?thesis by blast
qed

section \<open>Shortest paths and pivot relaxation\<close>

lemma path_weight_append:
  "path_weight w i (xs @ y # ys) j = path_weight w i xs y + path_weight w y ys j"
  by (induction xs arbitrary: i) (simp_all add: add.assoc)

lemma apsp_ref_pivot_row: "apsp_ref w (Suc k) k j = apsp_ref w k k j"
  by (simp add: min_def)

lemma apsp_ref_pivot_col: "apsp_ref w (Suc k) i k = apsp_ref w k i k"
  by (simp add: min_def)

lemma apsp_ref_le_path:
  "set xs \<subseteq> {..<k} \<Longrightarrow> apsp_ref w k i j \<le> path_weight w i xs j"
proof (induction k arbitrary: i j xs)
  case 0
  then show ?case by simp
next
  case (Suc k)
  from Suc.prems show ?case
  proof (induction "length xs" arbitrary: i xs rule: less_induct)
    case less
    show ?case
    proof (cases "k \<in> set xs")
      case False
      then have "set xs \<subseteq> {..<k}" using less.prems by (auto simp add: less_Suc_eq)
      from Suc.IH [OF this] show ?thesis by (simp add: min.coboundedI1)
    next
      case True
      then obtain ys zs where s: "xs = ys @ k # zs" "k \<notin> set ys"
        by (meson split_list_first)
      then have ys: "set ys \<subseteq> {..<k}" using less.prems by (auto simp add: less_Suc_eq)
      have zs: "set zs \<subseteq> {..<Suc k}" "length zs < length xs" using s less.prems by auto
      have "apsp_ref w k i k \<le> path_weight w i ys k" using Suc.IH [OF ys] .
      moreover have "apsp_ref w k k j \<le> path_weight w k zs j"
        using less.hyps [OF zs(2) zs(1), of k] unfolding apsp_ref_pivot_row .
      ultimately have "apsp_ref w k i k + apsp_ref w k k j \<le> path_weight w i xs j"
        by (simp add: s path_weight_append add_mono)
      then show ?thesis by (simp add: min.coboundedI2)
    qed
  qed
qed

lemma apsp_ref_is_path:
  "\<exists>xs. set xs \<subseteq> {..<k} \<and> path_weight w i xs j = apsp_ref w k i j"
proof (induction k arbitrary: i j)
  case 0
  have "set [] \<subseteq> {..<0::nat} \<and> path_weight w i [] j = apsp_ref w 0 i j" by simp
  then show ?case by blast
next
  case (Suc k)
  show ?case
  proof (cases "apsp_ref w k i j \<le> apsp_ref w k i k + apsp_ref w k k j")
    case True
    from Suc.IH [of i j] obtain xs where "set xs \<subseteq> {..<k}" "path_weight w i xs j = apsp_ref w k i j"
      by blast
    then have "set xs \<subseteq> {..<Suc k} \<and> path_weight w i xs j = apsp_ref w (Suc k) i j"
      using True by (auto simp add: min_def)
    then show ?thesis by blast
  next
    case False
    from Suc.IH [of i k] obtain ys where ys: "set ys \<subseteq> {..<k}" "path_weight w i ys k = apsp_ref w k i k"
      by blast
    from Suc.IH [of k j] obtain zs where zs: "set zs \<subseteq> {..<k}" "path_weight w k zs j = apsp_ref w k k j"
      by blast
    have "set (ys @ k # zs) \<subseteq> {..<Suc k} \<and> path_weight w i (ys @ k # zs) j = apsp_ref w (Suc k) i j"
      using ys zs False by (auto simp add: path_weight_append min_def)
    then show ?thesis by blast
  qed
qed

text \<open>The reference computes the shortest distances.\<close>

theorem apsp_ref_shortest: "apsp_ref w n i j = shortest w n i j"
proof (rule antisym)
  show "apsp_ref w n i j \<le> shortest w n i j"
    unfolding shortest_def by (rule Inf_greatest) (auto simp add: apsp_ref_le_path)
  obtain xs where "set xs \<subseteq> {..<n}" "path_weight w i xs j = apsp_ref w n i j"
    using apsp_ref_is_path by blast
  then show "shortest w n i j \<le> apsp_ref w n i j"
    unfolding shortest_def by (intro Inf_lower) force
qed

subsection \<open>The distances of the four-vertex example\<close>

lemma apsp_ref_1: "apsp_ref w 1 i j = min (w i j) (w i 0 + w 0 j)"
  by simp

lemma apsp_ref_2:
  "apsp_ref w 2 i j = min (apsp_ref w 1 i j) (apsp_ref w 1 i 1 + apsp_ref w 1 1 j)"
  using apsp_ref.simps(2) [of w 1 i j] by (simp only: Suc_1)

lemma apsp_ref_3:
  "apsp_ref w 3 i j = min (apsp_ref w 2 i j) (apsp_ref w 2 i 2 + apsp_ref w 2 2 j)"
  using apsp_ref.simps(2) [of w 2 i j] by (simp only: eval_nat_numeral)

lemma apsp_ref_4:
  "apsp_ref w 4 i j = min (apsp_ref w 3 i j) (apsp_ref w 3 i 3 + apsp_ref w 3 3 j)"
proof -
  have "(4::nat) = Suc 3" by simp
  then show ?thesis by (simp only: apsp_ref.simps(2))
qed

lemma weights_D4:
  "weights_of D4 4 0 0 = enat 0" "weights_of D4 4 0 1 = enat 3"
  "weights_of D4 4 0 2 = \<infinity>" "weights_of D4 4 0 3 = enat 7"
  "weights_of D4 4 1 0 = enat 3" "weights_of D4 4 1 1 = enat 0"
  "weights_of D4 4 1 2 = enat 1" "weights_of D4 4 1 3 = \<infinity>"
  "weights_of D4 4 2 0 = \<infinity>" "weights_of D4 4 2 1 = enat 1"
  "weights_of D4 4 2 2 = enat 0" "weights_of D4 4 2 3 = enat 2"
  "weights_of D4 4 3 0 = enat 7" "weights_of D4 4 3 1 = \<infinity>"
  "weights_of D4 4 3 2 = enat 2" "weights_of D4 4 3 3 = enat 0"
  by (simp_all add: weights_of_def dec_def D4_def INT_MAX_def zero_enat_def)

lemma apsp_ref_D4: "apsp_ref (weights_of D4 4) 4 0 3 = enat 6"
  by (simp add: apsp_ref_1 apsp_ref_2 apsp_ref_3 apsp_ref_4 weights_D4 zero_enat_def
      del: apsp_ref.simps One_nat_def)

lemma shortest_D4: "shortest (weights_of D4 4) 4 0 3 = enat 6"
  using apsp_ref_D4 by (simp only: apsp_ref_shortest)

lemma path_D4: "path_weight (weights_of D4 4) 0 [1, 2] 3 = enat 6"
  by (simp add: weights_D4 del: One_nat_def)

section \<open>The relaxation phase under schedules\<close>

subsection \<open>Runs on the four-vertex example\<close>

lemma D4_valid: "apsp_valid D4 4"
  by code_simp

lemma in_order_4:
  "in_order ops_scalar 4 = replicate 32 0 @ replicate 32 1 @ replicate 32 2 @ replicate 32 3"
  "in_order ops_avx 4 = replicate 36 0 @ replicate 36 1 @ replicate 36 2 @ replicate 36 3"
  by code_simp+

lemma in_order_4_admitted:
  "admitted ops_scalar 4 (in_order ops_scalar 4)" "pivots_in_order (in_order ops_scalar 4)"
  "admitted ops_avx 4 (in_order ops_avx 4)" "pivots_in_order (in_order ops_avx 4)"
  by code_simp+

lemma late_pivot_admitted:
  "admitted ops_scalar 4 late_pivot" "admitted ops_avx 4 late_pivot_avx"
  by code_simp+

lemma late_pivot_unsorted:
  "\<not> pivots_in_order late_pivot" "\<not> pivots_in_order late_pivot_avx"
  by code_simp+

lemma stale_store_admitted:
  "admitted ops_scalar 4 stale_store" "admitted ops_avx 4 stale_store_avx"
  "admitted ops_avx 8 stale_vstore"
  by code_simp+

lemma FloyD_D4_in_order:
  "FloyD_scalar (replicate 16 INT_MAX) D4 4 (in_order ops_scalar 4) = Inr R4"
  "FloyD_avx (replicate 16 INT_MAX) D4 4 (in_order ops_avx 4) = Inr R4"
  by code_simp+

lemma FloyD_D4_late_pivot:
  "FloyD_scalar (replicate 16 INT_MAX) D4 4 late_pivot = Inr R4_late"
  "FloyD_avx (replicate 16 INT_MAX) D4 4 late_pivot_avx = Inr R4_late"
  by code_simp+

lemma FloyD_R4_late_again:
  "FloyD_scalar (replicate 16 0) R4_late 4 (in_order ops_scalar 4) = Inr R4"
  "FloyD_avx (replicate 16 0) R4_late 4 (in_order ops_avx 4) = Inr R4"
  "FloyD_scalar (replicate 16 0) R4_late 4 late_pivot = Inr R4"
  "FloyD_avx (replicate 16 0) R4_late 4 late_pivot_avx = Inr R4"
  by code_simp+

lemma R4_late_neq: "R4_late \<noteq> R4"
  by (simp add: R4_late_def R4_def)

lemma FloyD_D4_stale_store:
  "FloyD_scalar (replicate 16 INT_MAX) D4 4 (take 79 stale_store) =
     Inr [0, 3, 4, 6,  3, 0, 1, 10,  4, 1, 0, 2,  7, 10, 2, 0]"
  "FloyD_scalar (replicate 16 INT_MAX) D4 4 (take 80 stale_store) =
     Inr [0, 3, 4, 7,  3, 0, 1, 10,  4, 1, 0, 2,  7, 10, 2, 0]"
  "FloyD_avx (replicate 16 INT_MAX) D4 4 (take 89 stale_store_avx) =
     Inr [0, 3, 4, 6,  3, 0, 1, 10,  4, 1, 0, 2,  7, 10, 2, 0]"
  "FloyD_avx (replicate 16 INT_MAX) D4 4 (take 90 stale_store_avx) =
     Inr [0, 3, 4, 7,  3, 0, 1, 10,  4, 1, 0, 2,  7, 10, 2, 0]"
  by code_simp+

lemma FloyD_chain8_stale_vstore:
  "FloyD_avx (replicate 64 INT_MAX) chain8 8 (take 29 stale_vstore) = Inr (chain8[2 := 2])"
  "FloyD_avx (replicate 64 INT_MAX) chain8 8 (take 30 stale_vstore) = Inr chain8"
  by code_simp+

lemma chain8_2:
  "chain8[2 := 2] ! (0 * 8 + 2) = 2" "chain8 ! (0 * 8 + 2) = INT_MAX"
  "chain8[2 := 2] ! (0 * 8 + 2) <s chain8 ! (0 * 8 + 2)"
  by code_simp+

text \<open>
  C9. On the distance matrix \<open>D4\<close>, with the rows \<open>[0, 3, INT_MAX, 7]\<close>,
  \<open>[3, 0, 1, INT_MAX]\<close>, \<open>[INT_MAX, 1, 0, 2]\<close>, \<open>[7, INT_MAX, 2, 0]\<close>, the result of
  \<^verbatim>\<open>FloyD\<close> depends on the schedule of the relaxation phase. When the pivots run one
  after the other, both variants return \<open>R4\<close>, with the rows \<open>[0, 3, 4, 6]\<close>,
  \<open>[3, 0, 1, 3]\<close>, \<open>[4, 1, 0, 2]\<close>, \<open>[6, 3, 2, 0]\<close>. Under the schedule \<open>late_pivot\<close>, in
  which row 0 of pivot 2 is relaxed before pivot 1 starts, both variants return
  \<open>R4_late\<close>, with the first row \<open>[0, 3, 4, 7]\<close>.
\<close>

theorem FloyD_example_schedules:
  "FloyD_scalar (replicate 16 INT_MAX) D4 4 (in_order ops_scalar 4) = Inr R4 \<and>
   FloyD_avx (replicate 16 INT_MAX) D4 4 (in_order ops_avx 4) = Inr R4 \<and>
   admitted ops_scalar 4 late_pivot \<and>
   FloyD_scalar (replicate 16 INT_MAX) D4 4 late_pivot = Inr R4_late \<and>
   admitted ops_avx 4 late_pivot_avx \<and>
   FloyD_avx (replicate 16 INT_MAX) D4 4 late_pivot_avx = Inr R4_late \<and>
   R4_late \<noteq> R4"
  by (simp only: FloyD_D4_in_order FloyD_D4_late_pivot late_pivot_admitted R4_late_neq
      not_False_eq_True simp_thms)

text \<open>
  C2. \<open>D4\<close> is symmetric, has a zero diagonal and weights between 1 and 7. The shortest
  distance from vertex 0 to vertex 3 is 6, along the path 0, 1, 2, 3, and that is what
  the reference \<open>apsp_ref\<close> computes. Under the schedule \<open>late_pivot\<close> both variants of
  \<^verbatim>\<open>FloyD\<close> return 7 in \<open>R[0][3]\<close>.
\<close>

theorem FloyD_late_pivot_not_shortest:
  "apsp_valid D4 4 \<and>
   shortest (weights_of D4 4) 4 0 3 = enat 6 \<and>
   apsp_ref (weights_of D4 4) 4 0 3 = enat 6 \<and>
   path_weight (weights_of D4 4) 0 [1, 2] 3 = enat 6 \<and>
   admitted ops_scalar 4 late_pivot \<and>
   (\<exists>R. FloyD_scalar (replicate 16 INT_MAX) D4 4 late_pivot = Inr R \<and>
      dec (R ! (0 * 4 + 3)) = enat 7) \<and>
   admitted ops_avx 4 late_pivot_avx \<and>
   (\<exists>R. FloyD_avx (replicate 16 INT_MAX) D4 4 late_pivot_avx = Inr R \<and>
      dec (R ! (0 * 4 + 3)) = enat 7)"
proof -
  have "dec (R4_late ! (0 * 4 + 3)) = enat 7"
    by (simp add: R4_late_def dec_def INT_MAX_def)
  then show ?thesis
    using D4_valid shortest_D4 apsp_ref_D4 path_D4 late_pivot_admitted FloyD_D4_late_pivot
    by simp
qed

text \<open>
  C7. The matrix \<open>R4_late\<close> that \<^verbatim>\<open>FloyD\<close> returns for \<open>D4\<close> under the schedule
  \<open>late_pivot\<close> is not a fixed point: run again on \<open>R4_late\<close>, under the same schedule or
  with the pivots one after the other, both variants return \<open>R4\<close>, which differs from
  \<open>R4_late\<close> in \<open>R[0][3]\<close>.
\<close>

theorem FloyD_late_pivot_not_idempotent:
  "apsp_valid D4 4 \<and>
   admitted ops_scalar 4 late_pivot \<and>
   FloyD_scalar (replicate 16 INT_MAX) D4 4 late_pivot = Inr R4_late \<and>
   FloyD_scalar (replicate 16 0) R4_late 4 late_pivot = Inr R4 \<and>
   FloyD_scalar (replicate 16 0) R4_late 4 (in_order ops_scalar 4) = Inr R4 \<and>
   admitted ops_avx 4 late_pivot_avx \<and>
   FloyD_avx (replicate 16 INT_MAX) D4 4 late_pivot_avx = Inr R4_late \<and>
   FloyD_avx (replicate 16 0) R4_late 4 late_pivot_avx = Inr R4 \<and>
   FloyD_avx (replicate 16 0) R4_late 4 (in_order ops_avx 4) = Inr R4 \<and>
   R4 \<noteq> R4_late"
  using D4_valid late_pivot_admitted FloyD_D4_late_pivot FloyD_R4_late_again R4_late_neq
  by simp

text \<open>
  C4. Nothing in the relaxation phase keeps the pivots in order. The schedule
  \<open>late_pivot\<close> gives every task all its steps in program order, and it is not sorted:
  its first 32 steps are pivot 0, the next 8 are row 0 of pivot 2, and pivot 1 starts
  only then. The order shows in the result: \<open>R4_late\<close> under \<open>late_pivot\<close>, \<open>R4\<close> when the
  pivots run one after the other.
\<close>

theorem FloyD_pivots_not_in_order:
  "admitted ops_scalar 4 late_pivot \<and> \<not> pivots_in_order late_pivot \<and>
   take 40 late_pivot = replicate 32 0 @ replicate 8 2 \<and>
   admitted ops_avx 4 late_pivot_avx \<and> \<not> pivots_in_order late_pivot_avx \<and>
   take 45 late_pivot_avx = replicate 36 0 @ replicate 9 2 \<and>
   admitted ops_scalar 4 (in_order ops_scalar 4) \<and> pivots_in_order (in_order ops_scalar 4) \<and>
   admitted ops_avx 4 (in_order ops_avx 4) \<and> pivots_in_order (in_order ops_avx 4) \<and>
   FloyD_scalar (replicate 16 INT_MAX) D4 4 late_pivot \<noteq>
     FloyD_scalar (replicate 16 INT_MAX) D4 4 (in_order ops_scalar 4) \<and>
   FloyD_avx (replicate 16 INT_MAX) D4 4 late_pivot_avx \<noteq>
     FloyD_avx (replicate 16 INT_MAX) D4 4 (in_order ops_avx 4)"
proof -
  have "take 40 late_pivot = replicate 32 0 @ replicate 8 2"
    "take 45 late_pivot_avx = replicate 36 0 @ replicate 9 2"
    by code_simp+
  then show ?thesis
    using late_pivot_admitted late_pivot_unsorted in_order_4_admitted
      FloyD_D4_late_pivot FloyD_D4_in_order R4_late_neq
    by simp
qed

text \<open>
  C10. An entry of \<open>R\<close> can increase during the relaxation phase. Every store writes a
  minimum, but the minimum was taken when the task loaded the entry, and another task
  may have lowered the entry since. In the schedule \<open>stale_store\<close> on \<open>D4\<close>, step 80 is
  the store of pivot 3 to \<open>R[0][3]\<close>: before it the entry is 6, written by pivot 2, after
  it the entry is 7. The same happens in the tail loop of the AVX variant (step 90 of
  \<open>stale_store_avx\<close>) and in its vector loop: in the schedule \<open>stale_vstore\<close> on the path
  graph \<open>chain8\<close>, step 30 is the vector store of pivot 2 to row 0, which puts the
  sentinel back into \<open>R[0][2]\<close>, where pivot 1 had written 2.
\<close>

theorem FloyD_stale_store_raises_entry:
  "admitted ops_scalar 4 stale_store \<and> stale_store ! 79 = 3 \<and>
   (\<exists>X Y. FloyD_scalar (replicate 16 INT_MAX) D4 4 (take 79 stale_store) = Inr X \<and>
      FloyD_scalar (replicate 16 INT_MAX) D4 4 (take 80 stale_store) = Inr Y \<and>
      X ! (0 * 4 + 3) = 6 \<and> Y ! (0 * 4 + 3) = 7 \<and> X ! (0 * 4 + 3) <s Y ! (0 * 4 + 3)) \<and>
   admitted ops_avx 4 stale_store_avx \<and> stale_store_avx ! 89 = 3 \<and>
   (\<exists>X Y. FloyD_avx (replicate 16 INT_MAX) D4 4 (take 89 stale_store_avx) = Inr X \<and>
      FloyD_avx (replicate 16 INT_MAX) D4 4 (take 90 stale_store_avx) = Inr Y \<and>
      X ! (0 * 4 + 3) = 6 \<and> Y ! (0 * 4 + 3) = 7 \<and> X ! (0 * 4 + 3) <s Y ! (0 * 4 + 3)) \<and>
   admitted ops_avx 8 stale_vstore \<and> stale_vstore ! 29 = 2 \<and>
   (\<exists>X Y. FloyD_avx (replicate 64 INT_MAX) chain8 8 (take 29 stale_vstore) = Inr X \<and>
      FloyD_avx (replicate 64 INT_MAX) chain8 8 (take 30 stale_vstore) = Inr Y \<and>
      X ! (0 * 8 + 2) = 2 \<and> Y ! (0 * 8 + 2) = INT_MAX \<and> X ! (0 * 8 + 2) <s Y ! (0 * 8 + 2))"
proof -
  have s: "stale_store ! 79 = 3" "stale_store_avx ! 89 = 3" "stale_vstore ! 29 = 2"
    by code_simp+
  have "FloyD_scalar (replicate 16 INT_MAX) D4 4 (take 79 stale_store) =
      Inr [0, 3, 4, 6,  3, 0, 1, 10,  4, 1, 0, 2,  7, 10, 2, 0] \<and>
    FloyD_scalar (replicate 16 INT_MAX) D4 4 (take 80 stale_store) =
      Inr [0, 3, 4, 7,  3, 0, 1, 10,  4, 1, 0, 2,  7, 10, 2, 0] \<and>
    [0, 3, 4, 6,  3, 0, 1, 10,  4, 1, 0, 2,  7, 10, 2, 0] ! (0 * 4 + 3) = (6 :: i32) \<and>
    [0, 3, 4, 7,  3, 0, 1, 10,  4, 1, 0, 2,  7, 10, 2, 0] ! (0 * 4 + 3) = (7 :: i32) \<and>
    [0, 3, 4, 6,  3, 0, 1, 10,  4, 1, 0, 2,  7, 10, 2, 0] ! (0 * 4 + 3) <s
      ([0, 3, 4, 7,  3, 0, 1, 10,  4, 1, 0, 2,  7, 10, 2, 0] ! (0 * 4 + 3) :: i32)"
    by (simp add: FloyD_D4_stale_store word_sless_alt)
  then have a: "\<exists>X Y. FloyD_scalar (replicate 16 INT_MAX) D4 4 (take 79 stale_store) = Inr X \<and>
      FloyD_scalar (replicate 16 INT_MAX) D4 4 (take 80 stale_store) = Inr Y \<and>
      X ! (0 * 4 + 3) = 6 \<and> Y ! (0 * 4 + 3) = 7 \<and> X ! (0 * 4 + 3) <s Y ! (0 * 4 + 3)"
    by blast
  have "FloyD_avx (replicate 16 INT_MAX) D4 4 (take 89 stale_store_avx) =
      Inr [0, 3, 4, 6,  3, 0, 1, 10,  4, 1, 0, 2,  7, 10, 2, 0] \<and>
    FloyD_avx (replicate 16 INT_MAX) D4 4 (take 90 stale_store_avx) =
      Inr [0, 3, 4, 7,  3, 0, 1, 10,  4, 1, 0, 2,  7, 10, 2, 0] \<and>
    [0, 3, 4, 6,  3, 0, 1, 10,  4, 1, 0, 2,  7, 10, 2, 0] ! (0 * 4 + 3) = (6 :: i32) \<and>
    [0, 3, 4, 7,  3, 0, 1, 10,  4, 1, 0, 2,  7, 10, 2, 0] ! (0 * 4 + 3) = (7 :: i32) \<and>
    [0, 3, 4, 6,  3, 0, 1, 10,  4, 1, 0, 2,  7, 10, 2, 0] ! (0 * 4 + 3) <s
      ([0, 3, 4, 7,  3, 0, 1, 10,  4, 1, 0, 2,  7, 10, 2, 0] ! (0 * 4 + 3) :: i32)"
    by (simp add: FloyD_D4_stale_store word_sless_alt)
  then have b: "\<exists>X Y. FloyD_avx (replicate 16 INT_MAX) D4 4 (take 89 stale_store_avx) = Inr X \<and>
      FloyD_avx (replicate 16 INT_MAX) D4 4 (take 90 stale_store_avx) = Inr Y \<and>
      X ! (0 * 4 + 3) = 6 \<and> Y ! (0 * 4 + 3) = 7 \<and> X ! (0 * 4 + 3) <s Y ! (0 * 4 + 3)"
    by blast
  have "FloyD_avx (replicate 64 INT_MAX) chain8 8 (take 29 stale_vstore) = Inr (chain8[2 := 2]) \<and>
    FloyD_avx (replicate 64 INT_MAX) chain8 8 (take 30 stale_vstore) = Inr chain8 \<and>
    chain8[2 := 2] ! (0 * 8 + 2) = 2 \<and> chain8 ! (0 * 8 + 2) = INT_MAX \<and>
    chain8[2 := 2] ! (0 * 8 + 2) <s chain8 ! (0 * 8 + 2)"
    using chain8_2 FloyD_chain8_stale_vstore by blast
  then have c: "\<exists>X Y. FloyD_avx (replicate 64 INT_MAX) chain8 8 (take 29 stale_vstore) = Inr X \<and>
      FloyD_avx (replicate 64 INT_MAX) chain8 8 (take 30 stale_vstore) = Inr Y \<and>
      X ! (0 * 8 + 2) = 2 \<and> Y ! (0 * 8 + 2) = INT_MAX \<and> X ! (0 * 8 + 2) <s Y ! (0 * 8 + 2)"
    by blast
  show ?thesis
    using stale_store_admitted s a b c by blast
qed

subsection \<open>Weights near \<open>INT_MAX / 2\<close>, pivots in order\<close>

text \<open>
  In \<open>D3_large\<close> the edges 0-1 and 1-2 weigh \<open>2^30\<close> and 1 and there is no edge 0-2, so the
  shortest distance from 0 to 2 is \<open>2^30 + 1\<close>. With the pivots one after the other, the
  AVX variant takes \<open>2^30\<close> for unreachable and leaves the sentinel in \<open>R[0][2]\<close>; the
  scalar variant adds \<open>2^30 + 2^30\<close>, which wraps, and returns negative entries.
\<close>

lemma weights_D3_large:
  "weights_of D3_large 3 0 0 = enat 0" "weights_of D3_large 3 0 1 = enat 1073741824"
  "weights_of D3_large 3 0 2 = \<infinity>" "weights_of D3_large 3 1 0 = enat 1073741824"
  "weights_of D3_large 3 1 1 = enat 0" "weights_of D3_large 3 1 2 = enat 1"
  "weights_of D3_large 3 2 0 = \<infinity>" "weights_of D3_large 3 2 1 = enat 1"
  "weights_of D3_large 3 2 2 = enat 0"
  by (simp_all add: weights_of_def dec_def D3_large_def INT_MAX_def zero_enat_def)

lemma shortest_D3_large: "shortest (weights_of D3_large 3) 3 0 2 = enat 1073741825"
proof -
  have "apsp_ref (weights_of D3_large 3) 3 0 2 = enat 1073741825"
    by (simp add: apsp_ref_1 apsp_ref_2 apsp_ref_3 weights_D3_large zero_enat_def
        del: apsp_ref.simps One_nat_def)
  then show ?thesis by (simp only: apsp_ref_shortest)
qed

lemma FloyD_D3_large_in_order:
  "apsp_valid D3_large 3"
  "FloyD_avx (replicate 9 0) D3_large 3 (in_order ops_avx 3) =
     Inr [0, 0x40000000, INT_MAX,  0x40000000, 0, 1,  INT_MAX, 1, 0]"
  "FloyD_scalar (replicate 9 0) D3_large 3 (in_order ops_scalar 3) =
     Inr [0x80000000, 0xC0000000, 0xC0000001,  0xC0000000, 0x80000000, 0x80000001,
          0xC0000001, 0x80000001, 0]"
  by code_simp+

text \<open>
  On \<open>D4_large\<close> (edges 0-1, 1-2, 2-3 of weights \<open>2^30 - 2\<close>, 5, 1) the first run of the
  AVX variant stores \<open>R[0][2] = 2^30 + 3\<close>, which from then on counts as unreachable, and
  leaves the sentinel in \<open>R[0][3]\<close>; a second run finds \<open>R[0][1] + R[1][3] = 2^30 + 4\<close>.
\<close>

lemma FloyD_D4_large_in_order:
  "apsp_valid D4_large 4"
  "FloyD_avx (replicate 16 0) D4_large 4 (in_order ops_avx 4) =
     Inr [0, 0x3FFFFFFE, 0x40000003, INT_MAX,  0x3FFFFFFE, 0, 5, 6,
          0x40000003, 5, 0, 1,  INT_MAX, 6, 1, 0]"
  "FloyD_avx (replicate 16 0)
     [0, 0x3FFFFFFE, 0x40000003, INT_MAX,  0x3FFFFFFE, 0, 5, 6,
      0x40000003, 5, 0, 1,  INT_MAX, 6, 1, 0] 4 (in_order ops_avx 4) =
     Inr [0, 0x3FFFFFFE, 0x40000003, 0x40000004,  0x3FFFFFFE, 0, 5, 6,
          0x40000003, 5, 0, 1,  0x40000004, 6, 1, 0]"
  by code_simp+

section \<open>The matmul kernels\<close>

lemma idx_lt: "i < m \<Longrightarrow> j < n \<Longrightarrow> i * n + j < m * (n::nat)"
proof -
  assume i: "i < m" and j: "j < n"
  have "i * n + j < i * n + n" using j by simp
  also have "\<dots> = Suc i * n" by simp
  also have "\<dots> \<le> m * n" using i by (metis Suc_leI mult_le_mono1)
  finally show ?thesis .
qed

subsection \<open>Loops that may fail\<close>

lemma for_each_append:
  "for_each body (xs @ ys) s =
     (case for_each body xs s of Inl e \<Rightarrow> Inl e | Inr s' \<Rightarrow> for_each body ys s')"
  by (induction xs arbitrary: s) (simp_all split: sum.splits)

lemma for_each_total:
  assumes "\<And>m t. m < n \<Longrightarrow> P m t \<Longrightarrow> \<exists>t'. body m t = Inr t' \<and> P (Suc m) t'"
  shows "m \<le> n \<Longrightarrow> P 0 s \<Longrightarrow> \<exists>t. for_each body [0..<m] s = Inr t \<and> P m t"
proof (induction m)
  case 0
  then show ?case by simp
next
  case (Suc m)
  then obtain t where t: "for_each body [0..<m] s = Inr t" "P m t" by auto
  from assms [OF _ t(2)] Suc.prems obtain t' where "body m t = Inr t'" "P (Suc m) t'" by auto
  then show ?case using t by (simp add: for_each_append)
qed

lemma for_each_partial:
  assumes "\<And>m u u'. m < n \<Longrightarrow> P m u \<Longrightarrow> body m u = Inr u' \<Longrightarrow> P (Suc m) u'"
  shows "m \<le> n \<Longrightarrow> P 0 s \<Longrightarrow> for_each body [0..<m] s = Inr t \<Longrightarrow> P m t"
proof (induction m arbitrary: t)
  case 0
  then show ?case by simp
next
  case (Suc m)
  from Suc.prems(3) obtain u where u: "for_each body [0..<m] s = Inr u" "body m u = Inr t"
    by (auto simp add: for_each_append split: sum.splits)
  have "P m u" using Suc.IH [OF _ Suc.prems(2) u(1)] Suc.prems(1) by simp
  then show ?case using assms [OF _ _ u(2)] Suc.prems(1) by simp
qed

subsection \<open>The scalar kernel adds the product to the output buffer\<close>

lemma accumulate_ok:
  assumes "i < M" "j < K" "d < N" "M * N \<le> length A" "N * K \<le> length B" "M * K \<le> length res"
    and "M * N \<le> 2147483647" "N * K \<le> 2147483647" "M * K \<le> 2147483647"
  shows "accumulate N K A B i j d res =
    Inr (res[i * K + j := res ! (i * K + j) + A ! (i * N + d) * B ! (d * K + j)])"
proof -
  have a: "i * N + d < length A" "i * N + d \<le> 2147483647"
    using idx_lt [OF assms(1,3)] assms(4,7) by simp_all
  have b: "d * K + j < length B" "d * K + j \<le> 2147483647"
    using idx_lt [OF assms(3,2)] assms(5,8) by simp_all
  have c: "i * K + j < length res" "i * K + j \<le> 2147483647"
    using idx_lt [OF assms(1,2)] assms(6,9) by simp_all
  show ?thesis
    by (simp add: accumulate_def load_ok [OF a] load_ok [OF b] load_ok [OF c] store_ok [OF c])
qed

lemma scalar_cell:
  assumes "i < M" "j < K" "M * N \<le> length A" "N * K \<le> length B" "M * K \<le> length res"
    and "M * N \<le> 2147483647" "N * K \<le> 2147483647" "M * K \<le> 2147483647"
  shows "for_each (accumulate N K A B i j) [0..<N] res =
    Inr (res[i * K + j := res ! (i * K + j) + dot N K A B i j])"
proof -
  let ?p = "i * K + j"
  let ?P = "\<lambda>d t. t = res[?p := res ! ?p + (\<Sum>d'<d. A ! (i * N + d') * B ! (d' * K + j))]"
  have p: "?p < length res" using idx_lt [OF assms(1,2)] assms(5) by simp
  have "\<exists>t'. accumulate N K A B i j d t = Inr t' \<and> ?P (Suc d) t'" if "d < N" "?P d t" for d t
  proof -
    have "M * K \<le> length t" using that(2) assms(5) by simp
    from accumulate_ok [OF assms(1,2) that(1) assms(3,4) this assms(6,7,8)] that(2) p
    show ?thesis by (simp add: add.assoc)
  qed
  from for_each_total [of N ?P "accumulate N K A B i j", OF this le_refl, of res]
  show ?thesis by (simp add: dot_def)
qed

lemma scalar_row:
  assumes "i < M" "M * N \<le> length A" "N * K \<le> length B" "M * K \<le> length res"
    and "M * N \<le> 2147483647" "N * K \<le> 2147483647" "M * K \<le> 2147483647"
  shows "\<exists>t. for_each (\<lambda>j. for_each (accumulate N K A B i j) [0..<N]) [0..<K] res = Inr t \<and>
    row_done N K A B res i K t"
proof (rule for_each_total [where P = "row_done N K A B res i" and n = K])
  show "K \<le> K" by simp
  show "row_done N K A B res i 0 res" by (auto simp add: row_done_def)
  fix j t assume j: "j < K" and t: "row_done N K A B res i j t"
  have lt: "length t = length res" using t by (simp add: row_done_def)
  then have "M * K \<le> length t" using assms(4) by simp
  note sc = scalar_cell [OF assms(1) j assms(2,3) this assms(5,6,7)]
  have p: "i * K + j < length res" using idx_lt [OF assms(1) j] assms(4) by simp
  have tp: "t ! (i * K + j) = res ! (i * K + j)" using t p by (simp add: row_done_def)
  have "row_done N K A B res i (Suc j) (t[i * K + j := t ! (i * K + j) + dot N K A B i j])"
    unfolding row_done_def
  proof (intro conjI allI impI)
    show "length (t[i * K + j := t ! (i * K + j) + dot N K A B i j]) = length res" using lt by simp
    fix q assume q: "q < length res"
    show "t[i * K + j := t ! (i * K + j) + dot N K A B i j] ! q =
      (if i * K \<le> q \<and> q < i * K + Suc j then res ! q + dot N K A B i (q - i * K) else res ! q)"
    proof (cases "q = i * K + j")
      case True
      then show ?thesis using tp p lt by simp
    next
      case False
      then have "t[i * K + j := t ! (i * K + j) + dot N K A B i j] ! q = t ! q" by simp
      also have "\<dots> = (if i * K \<le> q \<and> q < i * K + j then res ! q + dot N K A B i (q - i * K) else res ! q)"
        using t q by (simp add: row_done_def)
      finally show ?thesis using False by auto
    qed
  qed
  then show "\<exists>t'. for_each (accumulate N K A B i j) [0..<N] t = Inr t' \<and> row_done N K A B res i (Suc j) t'"
    using sc by simp
qed

lemma matmul_total:
  assumes "M * N \<le> length A" "N * K \<le> length B" "M * K \<le> length res"
    and "M * N \<le> 2147483647" "N * K \<le> 2147483647" "M * K \<le> 2147483647"
  shows "\<exists>t. matmul M N K A B res = Inr t \<and> rows_done N K A B res M t"
  unfolding matmul_def
proof (rule for_each_total [where P = "rows_done N K A B res" and n = M])
  show "M \<le> M" by simp
  show "rows_done N K A B res 0 res" by (simp add: rows_done_def)
  fix i t assume i: "i < M" and t: "rows_done N K A B res i t"
  have lt: "length t = length res" using t by (simp add: rows_done_def)
  then have "M * K \<le> length t" using assms(3) by simp
  from scalar_row [OF i assms(1,2) this assms(4,5,6)] obtain t' where
    t': "for_each (\<lambda>j. for_each (accumulate N K A B i j) [0..<N]) [0..<K] t = Inr t'"
    "row_done N K A B t i K t'" by blast
  have "rows_done N K A B res (Suc i) t'"
    unfolding rows_done_def
  proof (intro conjI allI impI)
    show "length t' = length res" using t'(2) lt by (simp add: row_done_def)
    fix q assume q: "q < length res"
    then have qt: "q < length t" using lt by simp
    have t'q: "t' ! q = (if i * K \<le> q \<and> q < i * K + K then t ! q + dot N K A B i (q - i * K) else t ! q)"
      using t'(2) qt by (simp add: row_done_def)
    have tq: "t ! q = (if q < i * K then res ! q + dot N K A B (q div K) (q mod K) else res ! q)"
      using t q by (simp add: rows_done_def)
    show "t' ! q = (if q < Suc i * K then res ! q + dot N K A B (q div K) (q mod K) else res ! q)"
    proof (cases "i * K \<le> q \<and> q < i * K + K")
      case True
      then obtain j where j: "q = i * K + j" "j < K"
        by (metis le_Suc_ex nat_add_left_cancel_less)
      then have "q div K = i" "q mod K = j" by simp_all
      then show ?thesis using True t'q tq j by simp
    next
      case False
      then have "t' ! q = t ! q" using t'q by (simp only: if_False)
      moreover have "q < Suc i * K \<longleftrightarrow> q < i * K" using False by auto
      ultimately show ?thesis using tq by simp
    qed
  qed
  then show "\<exists>t'. for_each (\<lambda>j. for_each (accumulate N K A B i j) [0..<N]) [0..<K] t = Inr t' \<and>
    rows_done N K A B res (Suc i) t'" using t'(1) by blast
qed

lemma matmul_cells:
  assumes "M * N \<le> length A" "N * K \<le> length B" "M * K \<le> length res"
    and "M * N \<le> 2147483647" "N * K \<le> 2147483647" "M * K \<le> 2147483647"
  shows "\<exists>R. matmul M N K A B res = Inr R \<and> length R = length res \<and>
    (\<forall>i<M. \<forall>j<K. R ! (i * K + j) = res ! (i * K + j) + dot N K A B i j) \<and>
    (\<forall>q. M * K \<le> q \<longrightarrow> q < length res \<longrightarrow> R ! q = res ! q)"
proof -
  from matmul_total [OF assms] obtain R where R: "matmul M N K A B res = Inr R"
    "rows_done N K A B res M R" by blast
  have "R ! (i * K + j) = res ! (i * K + j) + dot N K A B i j" if "i < M" "j < K" for i j
  proof -
    have "i * K + j < M * K" using that by (rule idx_lt)
    moreover have "(i * K + j) div K = i" "(i * K + j) mod K = j" using that(2) by simp_all
    ultimately show ?thesis using R(2) assms(3) by (simp add: rows_done_def)
  qed
  moreover have "R ! q = res ! q" if "M * K \<le> q" "q < length res" for q
    using R(2) that by (simp add: rows_done_def)
  moreover have "length R = length res" using R(2) by (simp add: rows_done_def)
  ultimately show ?thesis using R(1) by blast
qed

text \<open>
  C5, for the scalar kernel. The kernel of \<^verbatim>\<open>matmul.cpp\<close> adds the dot product to what
  the output buffer holds: for buffers that are large enough (and sizes that fit \<^verbatim>\<open>int\<close>)
  it returns, every cell holds \<open>Res[i][j] + \<Sum>d. A[i][d] * B[d][j]\<close> for the \<open>Res[i][j]\<close>
  before the call, and the rest of the buffer is unchanged. So a cell holds the dot
  product when it was zero before the call, as in the buffer that \<^verbatim>\<open>main\<close> passes.
\<close>

theorem matmul_adds_to_res:
  assumes "M * N \<le> length A" and "N * K \<le> length B" and "M * K \<le> length res"
    and "M * N \<le> 2147483647" and "N * K \<le> 2147483647" and "M * K \<le> 2147483647"
  shows "\<exists>R. matmul M N K A B res = Inr R \<and> length R = length res \<and>
    (\<forall>i<M. \<forall>j<K. R ! (i * K + j) = res ! (i * K + j) + dot N K A B i j \<and>
       (res ! (i * K + j) = 0 \<longrightarrow> R ! (i * K + j) = dot N K A B i j)) \<and>
    (\<forall>q. M * K \<le> q \<longrightarrow> q < length res \<longrightarrow> R ! q = res ! q)"
proof -
  from matmul_cells [OF assms] obtain R where R: "matmul M N K A B res = Inr R"
    "length R = length res"
    "\<forall>i<M. \<forall>j<K. R ! (i * K + j) = res ! (i * K + j) + dot N K A B i j"
    "\<forall>q. M * K \<le> q \<longrightarrow> q < length res \<longrightarrow> R ! q = res ! q"
    by blast
  from R(3) have "\<forall>i<M. \<forall>j<K. R ! (i * K + j) = res ! (i * K + j) + dot N K A B i j \<and>
       (res ! (i * K + j) = 0 \<longrightarrow> R ! (i * K + j) = dot N K A B i j)"
    by simp
  with R(1,2,4) show ?thesis by blast
qed

theorem matmul_adds_to_res_witness:
  "\<exists>R. matmul 2 2 2 spec_A spec_B [1, 1, 1, 1] = Inr R \<and> length R = length [1, 1, 1, 1 :: i32] \<and>
    (\<forall>i<2. \<forall>j<2. R ! (i * 2 + j) = [1, 1, 1, 1] ! (i * 2 + j) + dot 2 2 spec_A spec_B i j \<and>
       ([1, 1, 1, 1 :: i32] ! (i * 2 + j) = 0 \<longrightarrow> R ! (i * 2 + j) = dot 2 2 spec_A spec_B i j)) \<and>
    (\<forall>q. 2 * 2 \<le> q \<longrightarrow> q < length [1, 1, 1, 1 :: i32] \<longrightarrow> R ! q = [1, 1, 1, 1] ! q)"
proof -
  have "2 * 2 \<le> length spec_A" "2 * 2 \<le> length spec_B" "2 * 2 \<le> length [1, 1, 1, 1 :: i32]"
    "2 * 2 \<le> (2147483647 :: nat)"
    by (simp_all add: spec_A_def spec_B_def)
  from matmul_adds_to_res [OF this(1,2,3,4,4,4)] show ?thesis .
qed

text \<open>
  The scalar kernel on the 2 by 2 operands \<open>spec_A\<close> and \<open>spec_B\<close>: on a zeroed buffer it
  returns the product, with the rows \<open>[19, 22]\<close>, \<open>[43, 50]\<close>; on a buffer of ones it returns
  one more in each cell.
\<close>

theorem matmul_accumulates_counterexample:
  "matmul 2 2 2 spec_A spec_B [0, 0, 0, 0] = Inr [19, 22, 43, 50] \<and>
   matmul 2 2 2 spec_A spec_B [1, 1, 1, 1] = Inr [20, 23, 44, 51]"
  by code_simp

subsection \<open>Constant operands\<close>

lemma dot_const:
  assumes "A = replicate (M * N) a" "B = replicate (N * K) b" "i < M" "j < K"
  shows "dot N K A B i j = of_nat N * (a * b)"
proof -
  have "dot N K A B i j = (\<Sum>d<N. a * b)"
    unfolding dot_def
  proof (rule sum.cong)
    fix d assume "d \<in> {..<N}"
    then have d: "d < N" by simp
    show "A ! (i * N + d) * B ! (d * K + j) = a * b"
      using idx_lt [OF assms(3) d] idx_lt [OF d assms(4)] by (simp add: assms(1,2))
  qed simp
  then show ?thesis by simp
qed

lemma take_cells_eq:
  assumes "M * K \<le> length R" "\<And>i j. i < M \<Longrightarrow> j < K \<Longrightarrow> R ! (i * K + j) = v"
  shows "take (M * K) R = replicate (M * K) v"
proof (rule nth_equalityI)
  show "length (take (M * K) R) = length (replicate (M * K) v)" using assms(1) by simp
  fix q assume "q < length (take (M * K) R)"
  then have q: "q < M * K" by simp
  then have K: "0 < K" by (cases K) simp_all
  have "q div K < M" using q by (simp add: less_mult_imp_div_less)
  moreover have "q mod K < K" using K by simp
  ultimately have "R ! (q div K * K + q mod K) = v" by (rule assms(2))
  then show "take (M * K) R ! q = replicate (M * K) v ! q" using q by simp
qed

lemma matmul_const:
  assumes "A = replicate (M * N) a" "B = replicate (N * K) b" "res = replicate L c" "M * K \<le> L"
    and "M * N \<le> 2147483647" "N * K \<le> 2147483647" "M * K \<le> 2147483647"
  shows "\<exists>R. matmul M N K A B res = Inr R \<and>
    take (M * K) R = replicate (M * K) (c + of_nat N * (a * b))"
proof -
  have "M * N \<le> length A" "N * K \<le> length B" "M * K \<le> length res"
    using assms by simp_all
  from matmul_cells [OF this assms(5,6,7)] obtain R where R: "matmul M N K A B res = Inr R"
    "length R = length res"
    "\<And>i j. i < M \<Longrightarrow> j < K \<Longrightarrow> R ! (i * K + j) = res ! (i * K + j) + dot N K A B i j"
    by blast
  have "R ! (i * K + j) = c + of_nat N * (a * b)" if "i < M" "j < K" for i j
  proof -
    have "i * K + j < L" using idx_lt [OF that] assms(4) by simp
    then show ?thesis using R(3) [OF that] dot_const [OF assms(1,2) that] by (simp add: assms(3))
  qed
  moreover have "M * K \<le> length R" using R(2) assms(3,4) by simp
  ultimately have "take (M * K) R = replicate (M * K) (c + of_nat N * (a * b))"
    by (intro take_cells_eq)
  then show ?thesis using R(1) by blast
qed
subsection \<open>The AVX kernel stores the sum of every eighth term\<close>

text \<open>
  Lane \<open>l\<close> of \<open>sum_vec\<close> collects \<open>A[i][d] * B[d][j + l]\<close> for \<open>d = 0, 8, 16, \<dots>\<close>: the loop
  steps \<open>d\<close> by 8 but the eight lanes are eight columns of the one row \<open>d\<close> of \<open>B\<close>, not
  eight consecutive terms of the dot product. The loop ends with \<open>d \<ge> N\<close>, so the tail
  loop that follows has nothing left to do.
\<close>

lemma load_Inr: "load A p = Inr a \<Longrightarrow> a = A ! p"
  by (auto simp add: load_def split: if_splits)

lemma mm256_load_Inr:
  "mm256_load_si256 B p = Inr v \<Longrightarrow> p + 8 \<le> length B \<and> v = take 8 (drop p B)"
  by (auto simp add: mm256_load_si256_def split: if_splits)

lemma madd_lane:
  assumes "length s = 8" "p + 8 \<le> length B" "l < 8"
  shows "mm256_add_epi32 s (mm256_mullo_epi32 (mm256_set1_epi32 a) (take 8 (drop p B))) ! l =
    s ! l + a * B ! (p + l)"
  using assms
  by (simp add: mm256_add_epi32_def mm256_mullo_epi32_def mm256_set1_epi32_def)

lemma madd_length:
  assumes "length s = 8" "p + 8 \<le> length B"
  shows "length (mm256_add_epi32 s (mm256_mullo_epi32 (mm256_set1_epi32 a) (take 8 (drop p B)))) = 8"
  using assms
  by (simp add: mm256_add_epi32_def mm256_mullo_epi32_def mm256_set1_epi32_def)

lemma vec_loop_partial:
  "vec_loop N K A B i j d s = Inr (d', s') \<Longrightarrow> length s = 8 \<Longrightarrow> d = 8 * t0 \<Longrightarrow>
   N \<le> d' \<and> d' = 8 * max t0 ((N + 7) div 8) \<and> length s' = 8 \<and>
   (\<forall>l<8. s' ! l = s ! l + (\<Sum>t\<in>{t0..<(N + 7) div 8}. A ! (i * N + 8 * t) * B ! (8 * t * K + j + l)))"
proof (induction N K A B i j d s arbitrary: t0 rule: vec_loop.induct)
  case (1 N K A B i j d s)
  show ?case
  proof (cases "d < N")
    case True
    from "1.prems"(1) True obtain a b_vec where
      a: "load A (i * N + d) = Inr a" and b: "mm256_load_si256 B (d * K + j) = Inr b_vec"
      and rec: "vec_loop N K A B i j (d + 8)
        (mm256_add_epi32 s (mm256_mullo_epi32 (mm256_set1_epi32 a) b_vec)) = Inr (d', s')"
      by (subst (asm) vec_loop.simps) (auto split: sum.splits)
    have av: "a = A ! (i * N + d)" using a by (rule load_Inr)
    have bb: "d * K + j + 8 \<le> length B" "b_vec = take 8 (drop (d * K + j) B)"
      using mm256_load_Inr [OF b] by simp_all
    let ?s = "mm256_add_epi32 s (mm256_mullo_epi32 (mm256_set1_epi32 a) b_vec)"
    have ls: "length ?s = 8" using madd_length [OF "1.prems"(2) bb(1)] bb(2) by simp
    have d8: "d + 8 = 8 * Suc t0" using "1.prems"(3) by simp
    from "1.IH" [OF True a b rec ls d8]
    have ih: "N \<le> d'" "d' = 8 * max (Suc t0) ((N + 7) div 8)" "length s' = 8"
      "\<And>l. l < 8 \<Longrightarrow> s' ! l = ?s ! l +
        (\<Sum>t\<in>{Suc t0..<(N + 7) div 8}. A ! (i * N + 8 * t) * B ! (8 * t * K + j + l))"
      by simp_all
    have t0: "t0 < (N + 7) div 8" using True "1.prems"(3) by simp
    have "s' ! l = s ! l + (\<Sum>t\<in>{t0..<(N + 7) div 8}. A ! (i * N + 8 * t) * B ! (8 * t * K + j + l))"
      if l: "l < 8" for l
    proof -
      have "?s ! l = s ! l + A ! (i * N + 8 * t0) * B ! (8 * t0 * K + j + l)"
        using madd_lane [OF "1.prems"(2) bb(1) l] bb(2) av "1.prems"(3) by simp
      then show ?thesis using ih(4) [OF l]
        by (simp add: sum.atLeast_Suc_lessThan [OF t0] add.assoc)
    qed
    moreover have "d' = 8 * max t0 ((N + 7) div 8)" using ih(2) t0 by simp
    ultimately show ?thesis using ih(1,3) by simp
  next
    case False
    then have "vec_loop N K A B i j d s = Inr (d, s)"
      by (subst vec_loop.simps) simp
    then have e: "d' = d" "s' = s" using "1.prems"(1) by simp_all
    have "(N + 7) div 8 \<le> t0" using False "1.prems"(3) by simp
    then have "{t0..<(N + 7) div 8} = {}" "max t0 ((N + 7) div 8) = t0" by simp_all
    then show ?thesis using e False "1.prems"(2,3) by simp
  qed
qed

text \<open>Whatever \<open>N\<close> is, the vector loop leaves nothing to the tail loop.\<close>

lemma vec_loop_exhausts:
  assumes "vec_loop N K A B i j 0 mm256_setzero_si256 = Inr (d, sum_vec)"
  shows "[d..<N] = []" "d = 8 * ((N + 7) div 8)"
proof -
  have "length mm256_setzero_si256 = 8" by (simp add: mm256_setzero_si256_def)
  from vec_loop_partial [OF assms this, of 0] show "[d..<N] = []" "d = 8 * ((N + 7) div 8)"
    by simp_all
qed

lemma vec_loop_total:
  "(\<forall>t. 8 * t < N \<longrightarrow> i * N + 8 * t < length A \<and> 8 * t * K + j + 8 \<le> length B) \<Longrightarrow>
   length A \<le> 2147483647 \<Longrightarrow> length B \<le> 2147483647 \<Longrightarrow> j mod 8 = 0 \<Longrightarrow>
   d = 8 * t0 \<Longrightarrow> \<exists>d' s'. vec_loop N K A B i j d s = Inr (d', s')"
proof (induction N K A B i j d s arbitrary: t0 rule: vec_loop.induct)
  case (1 N K A B i j d s)
  show ?case
  proof (cases "d < N")
    case True
    then have ok: "i * N + d < length A" "d * K + j + 8 \<le> length B"
      using "1.prems"(1,5) by simp_all
    have "(8 * (t0 * K) + j) mod 8 = j mod 8" by (rule mod_mult_self4)
    then have al: "(d * K + j) mod 8 = 0" using "1.prems"(4,5) by (simp add: mult.assoc)
    have a: "load A (i * N + d) = Inr (A ! (i * N + d))"
      using ok(1) "1.prems"(2) by (intro load_ok) simp_all
    have b: "mm256_load_si256 B (d * K + j) = Inr (take 8 (drop (d * K + j) B))"
      using ok(2) "1.prems"(3) al by (intro mm256_load_ok) simp_all
    have d8: "d + 8 = 8 * Suc t0" using "1.prems"(5) by simp
    from "1.IH" [OF True a b "1.prems"(1,2,3,4) d8] obtain d' s' where
      "vec_loop N K A B i j (d + 8) (mm256_add_epi32 s (mm256_mullo_epi32
        (mm256_set1_epi32 (A ! (i * N + d))) (take 8 (drop (d * K + j) B)))) = Inr (d', s')"
      by blast
    then have "vec_loop N K A B i j d s = Inr (d', s')"
      using True a b by (subst vec_loop.simps) simp
    then show ?thesis by blast
  next
    case False
    then have "vec_loop N K A B i j d s = Inr (d, s)"
      by (subst vec_loop.simps) simp
    then show ?thesis by blast
  qed
qed

text \<open>
  A cell whose accesses are aligned: the eight elements from \<open>res[i * K + j]\<close> on receive
  the eight lane sums.
\<close>

lemma avx_cell_aligned:
  assumes tot: "\<forall>t. 8 * t < N \<longrightarrow> i * N + 8 * t < length A \<and> 8 * t * K + j + 8 \<le> length B"
    and lA: "length A \<le> 2147483647" and lB: "length B \<le> 2147483647"
    and j: "j mod 8 = 0" and p: "(i * K + j) mod 8 = 0"
    and res: "i * K + j + 8 \<le> length res" "length res \<le> 2147483647"
  shows "avx_cell N K A B i j res =
    Inr (take (i * K + j) res @ map (lane_sum N K A B i j) [0..<8] @ drop (i * K + j + 8) res)"
proof -
  from vec_loop_total [OF tot lA lB j, of 0 0 mm256_setzero_si256] obtain d s
    where v: "vec_loop N K A B i j 0 mm256_setzero_si256 = Inr (d, s)" by auto
  have z: "length mm256_setzero_si256 = 8" by (simp add: mm256_setzero_si256_def)
  from vec_loop_partial [OF v z, of 0]
  have d: "N \<le> d" and ls: "length s = 8"
    and lanes: "\<And>l. l < 8 \<Longrightarrow> s ! l = lane_sum N K A B i j l"
    by (simp_all add: mm256_setzero_si256_def lane_sum_def atLeast0LessThan)
  have s: "s = map (lane_sum N K A B i j) [0..<8]"
  proof (rule nth_equalityI)
    show "length s = length (map (lane_sum N K A B i j) [0..<8])" using ls by simp
    fix l assume "l < length s"
    then have l: "l < 8" using ls by simp
    then have "map (lane_sum N K A B i j) [0..<8] ! l = lane_sum N K A B i j l"
      by (simp del: upt_Suc add: nth_map [of l "[0..<8]"])
    then show "s ! l = map (lane_sum N K A B i j) [0..<8] ! l" using lanes [OF l] by simp
  qed
  have st: "mm256_store_si256 res (i * K + j) s =
      Inr (take (i * K + j) res @ s @ drop (i * K + j + 8) res)"
    using res p by (intro mm256_store_ok) simp_all
  have "for_each (accumulate N K A B i j) [d..<N] x = Inr x" for x using d by simp
  then show ?thesis using st by (simp add: avx_cell_def v s [symmetric])
qed

lemma avx_cell_first_lane:
  assumes "avx_cell N K A B i j res =
    Inr (take (i * K + j) res @ map (lane_sum N K A B i j) [0..<8] @ drop (i * K + j + 8) res)"
    and "i * K + j + 8 \<le> length res"
  shows "\<exists>R. avx_cell N K A B i j res = Inr R \<and> length R = length res \<and>
    R ! (i * K + j) = lane_sum N K A B i j 0"
proof -
  let ?R = "take (i * K + j) res @ map (lane_sum N K A B i j) [0..<8] @ drop (i * K + j + 8) res"
  have "length ?R = length res" using assms(2) by simp
  moreover have "?R ! (i * K + j) = lane_sum N K A B i j 0"
    using assms(2) by (simp add: nth_append upt_conv_Cons del: upt_Suc)
  ultimately show ?thesis using assms(1) by blast
qed

text \<open>
  A cell in a column that is not a multiple of 8: the first vector load, at
  \<open>&B[0 * K + j]\<close>, is misaligned.
\<close>

lemma avx_cell_misaligned:
  assumes "0 < N" "i * N < length A" "length A \<le> 2147483647" "j mod 8 \<noteq> 0" "j \<le> 2147483647"
  shows "avx_cell N K A B i j res = Inl Misaligned"
proof -
  have a: "load A (i * N + 0) = Inr (A ! (i * N + 0))"
    using assms(2,3) by (intro load_ok) simp_all
  have b: "mm256_load_si256 B (0 * K + j) = Inl Misaligned"
    using assms(4,5) by (intro mm256_load_misaligned) simp_all
  have "vec_loop N K A B i j 0 mm256_setzero_si256 = Inl Misaligned"
    using assms(1) a b by (subst vec_loop.simps) simp
  then show ?thesis by (simp add: avx_cell_def)
qed

lemma matmul_avx_second_cell:
  assumes "0 < M" "1 < K" "avx_cell N K A B 0 0 res = Inr res1" "avx_cell N K A B 0 1 res1 = Inl e"
  shows "matmul_avx M N K A B res = Inl e"
proof -
  have "[0..<M] = 0 # [1..<M]" using assms(1) by (simp add: upt_conv_Cons)
  moreover have "[0..<K] = 0 # 1 # [Suc 1..<K]" using assms(2) by (simp add: upt_conv_Cons)
  ultimately show ?thesis using assms(3,4) by (simp add: matmul_avx_def)
qed

text \<open>With two or more columns the AVX kernel does not return.\<close>

lemma matmul_avx_fails:
  assumes "0 < M" "1 < K" "0 < N" "0 < length A" "length A \<le> 2147483647"
  shows "\<exists>e. matmul_avx M N K A B res = Inl e"
proof (cases "avx_cell N K A B 0 0 res")
  case (Inl e)
  have "[0..<M] = 0 # [1..<M]" using assms(1) by (simp add: upt_conv_Cons)
  moreover have "[0..<K] = 0 # [1..<K]" using assms(2) by (simp add: upt_conv_Cons)
  ultimately have "matmul_avx M N K A B res = Inl e" using Inl by (simp add: matmul_avx_def)
  then show ?thesis by blast
next
  case (Inr res1)
  have "avx_cell N K A B 0 1 res1 = Inl Misaligned"
    using assms(3,4,5) by (intro avx_cell_misaligned) simp_all
  from matmul_avx_second_cell [OF assms(1,2) Inr this] show ?thesis by blast
qed

lemma lane_sum_const:
  assumes "A = replicate LA a" "B = replicate LB b"
    and "\<forall>t. 8 * t < N \<longrightarrow> i * N + 8 * t < LA \<and> 8 * t * K + j + l < LB"
  shows "lane_sum N K A B i j l = of_nat ((N + 7) div 8) * (a * b)"
proof -
  have "lane_sum N K A B i j l = (\<Sum>t<(N + 7) div 8. a * b)"
    unfolding lane_sum_def
  proof (rule sum.cong)
    fix t assume "t \<in> {..<(N + 7) div 8}"
    then have "8 * t < N" by simp
    then have "i * N + 8 * t < LA" "8 * t * K + j + l < LB" using assms(3) by simp_all
    then show "A ! (i * N + 8 * t) * B ! (8 * t * K + j + l) = a * b"
      by (simp add: assms(1,2))
  qed simp
  then show ?thesis by simp
qed

text \<open>
  The kernel on constant operands with at least eight columns: the first cell receives
  the sum of every eighth term, the second cell faults, and so does the kernel.
\<close>

lemma matmul_avx_const:
  assumes A: "A = replicate (M * N) a" and B: "B = replicate (N * K) b"
    and res: "length res = M * K"
    and M: "0 < M" and K: "8 \<le> K" and N: "0 < N"
    and fit: "M * N \<le> 2147483647" "N * K \<le> 2147483647" "M * K \<le> 2147483647"
  shows "\<exists>R. avx_cell N K A B 0 0 res = Inr R \<and> length R = length res \<and>
      R ! (0 * K + 0) = of_nat ((N + 7) div 8) * (a * b) \<and>
      avx_cell N K A B 0 1 R = Inl Misaligned"
    and "matmul_avx M N K A B res = Inl Misaligned"
proof -
  have lA: "length A = M * N" and lB: "length B = N * K" by (simp_all add: A B)
  have t: "8 * t < M * N \<and> 8 * t * K + 8 \<le> N * K" if "8 * t < N" for t
  proof
    have "N \<le> M * N" using M by (cases M) simp_all
    with that show "8 * t < M * N" by (rule less_le_trans)
    have "Suc (8 * t) * K \<le> N * K" using that by (intro mult_le_mono1) simp
    then show "8 * t * K + 8 \<le> N * K" using K by simp
  qed
  have tot: "\<forall>t. 8 * t < N \<longrightarrow> 0 * N + 8 * t < length A \<and> 8 * t * K + 0 + 8 \<le> length B"
    using t by (simp add: lA lB)
  have "K \<le> M * K" using M by (cases M) simp_all
  with K have "8 \<le> M * K" by (rule le_trans)
  then have r8: "0 * K + 0 + 8 \<le> length res" using res by simp
  have c: "avx_cell N K A B 0 0 res =
      Inr (take (0 * K + 0) res @ map (lane_sum N K A B 0 0) [0..<8] @ drop (0 * K + 0 + 8) res)"
    using tot r8 fit by (intro avx_cell_aligned) (simp_all add: lA lB res)
  from avx_cell_first_lane [OF c r8] obtain R where
    R: "avx_cell N K A B 0 0 res = Inr R" "length R = length res"
      "R ! (0 * K + 0) = lane_sum N K A B 0 0 0"
    by blast
  have "\<forall>t. 8 * t < N \<longrightarrow> 0 * N + 8 * t < M * N \<and> 8 * t * K + 0 + 0 < N * K"
  proof (intro allI impI)
    fix t assume h: "8 * t < N"
    from t [OF h] show "0 * N + 8 * t < M * N \<and> 8 * t * K + 0 + 0 < N * K"
      using h K by simp
  qed
  from lane_sum_const [OF A B this]
  have v: "R ! (0 * K + 0) = of_nat ((N + 7) div 8) * (a * b)" using R(3) by simp
  have "0 < M * N" using M N by simp
  then have m: "avx_cell N K A B 0 1 R = Inl Misaligned"
    using N fit(1) by (intro avx_cell_misaligned) (simp_all add: lA)
  show "\<exists>R. avx_cell N K A B 0 0 res = Inr R \<and> length R = length res \<and>
      R ! (0 * K + 0) = of_nat ((N + 7) div 8) * (a * b) \<and>
      avx_cell N K A B 0 1 R = Inl Misaligned"
    using R(1,2) v m by blast
  have "1 < K" using K by simp
  from matmul_avx_second_cell [OF M this R(1) m]
  show "matmul_avx M N K A B res = Inl Misaligned" .
qed

lemma main_lengths:
  "length main_res = 2000 * 3000"
  unfolding main_res_def length_replicate by simp

text \<open>
  C1. On the buffers of \<^verbatim>\<open>main\<close> (\<open>M = 2000\<close>, \<open>N = 1000\<close>, \<open>K = 3000\<close>, \<open>A\<close> all 100, \<open>B\<close>
  all 50, \<open>res\<close> zeroed) the scalar kernel returns \<open>5000000 = 1000 * 100 * 50\<close> in every
  cell. The AVX kernel does not return that matrix. Its first cell, \<open>(0, 0)\<close>, receives
  \<open>625000 = 125 * 100 * 50\<close>, the sum of every eighth term; in its second cell the
  vector load at \<open>&B[1]\<close> is misaligned, and the run ends there. In the smallest case
  where every access is aligned, a row \<open>1 .. 8\<close> times a column of ones (\<open>M = 1\<close>, \<open>N = 8\<close>,
  \<open>K = 1\<close>, in a buffer of eight elements), the scalar kernel returns 36 and the AVX
  kernel 1.
\<close>

theorem matmul_avx_differs:
  "(\<exists>R. matmul 2000 1000 3000 main_A main_B main_res = Inr R \<and>
      take (2000 * 3000) R = replicate (2000 * 3000) 5000000) \<and>
   (\<exists>R. avx_cell 1000 3000 main_A main_B 0 0 main_res = Inr R \<and> length R = length main_res \<and>
      R ! (0 * 3000 + 0) = 625000 \<and>
      avx_cell 1000 3000 main_A main_B 0 1 R = Inl Misaligned) \<and>
   matmul_avx 2000 1000 3000 main_A main_B main_res = Inl Misaligned \<and>
   matmul 1 8 1 [1, 2, 3, 4, 5, 6, 7, 8] (replicate 8 1) (replicate 8 0) =
     Inr [36, 0, 0, 0, 0, 0, 0, 0] \<and>
   matmul_avx 1 8 1 [1, 2, 3, 4, 5, 6, 7, 8] (replicate 8 1) (replicate 8 0) =
     Inr [1, 1, 1, 1, 1, 1, 1, 1]"
proof (intro conjI)
  show "matmul 1 8 1 [1, 2, 3, 4, 5, 6, 7, 8] (replicate 8 1) (replicate 8 0) =
     Inr [36, 0, 0, 0, 0, 0, 0, 0]"
    by code_simp
  show "matmul_avx 1 8 1 [1, 2, 3, 4, 5, 6, 7, 8] (replicate 8 1) (replicate 8 0) =
     Inr [1, 1, 1, 1, 1, 1, 1, 1]"
    by code_simp
  have fit: "2000 * 1000 \<le> (2147483647 :: nat)" "1000 * 3000 \<le> (2147483647 :: nat)"
    "2000 * 3000 \<le> (2147483647 :: nat)"
    by simp_all
  have v: "(0::i32) + of_nat 1000 * (100 * 50) = 5000000" by simp
  have "2000 * 3000 \<le> (2000 * 3000 :: nat)" by simp
  from matmul_const [OF main_A_def main_B_def main_res_def this fit]
  show "\<exists>R. matmul 2000 1000 3000 main_A main_B main_res = Inr R \<and>
      take (2000 * 3000) R = replicate (2000 * 3000) 5000000"
    unfolding v .
  have w: "(of_nat ((1000 + 7) div 8) :: i32) * (100 * 50) = 625000" by simp
  have p: "(0::nat) < 2000" "(8::nat) \<le> 3000" "(0::nat) < 1000" by simp_all
  note c = matmul_avx_const [OF main_A_def main_B_def main_lengths p fit]
  from c(1) show "\<exists>R. avx_cell 1000 3000 main_A main_B 0 0 main_res = Inr R \<and>
      length R = length main_res \<and> R ! (0 * 3000 + 0) = 625000 \<and>
      avx_cell 1000 3000 main_A main_B 0 1 R = Inl Misaligned"
    unfolding w .
  from c(2) show "matmul_avx 2000 1000 3000 main_A main_B main_res = Inl Misaligned" .
qed

lemma FloyD_avx_chain9:
  "FloyD_avx (replicate 81 INT_MAX) chain9 9 (in_order ops_avx 9) = Inl Misaligned"
  by code_simp

text \<open>
  C8. With a contraction dimension of 999 (and \<open>M = 2000\<close>, \<open>K = 3000\<close>, \<open>A\<close> all 100, \<open>B\<close>
  all 50, \<open>res\<close> zeroed) the scalar kernel returns \<open>4995000 = 999 * 100 * 50\<close> in every
  cell. In the AVX kernel the vector loop of the first cell runs until \<open>d = 1000\<close>, so the
  tail loop has no iteration left, and the cell receives \<open>625000 = 125 * 100 * 50\<close>; the
  second cell faults as in C1. Where every access is aligned (\<open>M = 1\<close>, \<open>N = 9\<close>, \<open>K = 1\<close>, a
  row \<open>1 .. 9\<close> times a column of ones, \<open>B\<close> and \<open>res\<close> with room for the vector accesses) the
  scalar kernel returns 45 and the AVX kernel \<open>10 = 1 + 9\<close>, the terms \<open>d = 0\<close> and \<open>d = 8\<close>.
  In the APSP kernel the tail loop does run, but for \<open>n = 9\<close> the AVX variant does not get
  there: row 1 starts at element 9 of the buffer, and its vector load is misaligned.
\<close>

theorem matmul_avx_tail_skipped:
  "(\<exists>R. matmul 2000 999 3000 tail_A tail_B main_res = Inr R \<and>
      take (2000 * 3000) R = replicate (2000 * 3000) 4995000) \<and>
   (\<exists>d sum_vec. vec_loop 999 3000 tail_A tail_B 0 0 0 mm256_setzero_si256 = Inr (d, sum_vec) \<and>
      d = 1000 \<and> [d..<999] = []) \<and>
   (\<exists>R. avx_cell 999 3000 tail_A tail_B 0 0 main_res = Inr R \<and> length R = length main_res \<and>
      R ! (0 * 3000 + 0) = 625000 \<and>
      avx_cell 999 3000 tail_A tail_B 0 1 R = Inl Misaligned) \<and>
   matmul_avx 2000 999 3000 tail_A tail_B main_res = Inl Misaligned \<and>
   matmul 1 9 1 [1, 2, 3, 4, 5, 6, 7, 8, 9] (replicate 16 1) (replicate 8 0) =
     Inr [45, 0, 0, 0, 0, 0, 0, 0] \<and>
   matmul_avx 1 9 1 [1, 2, 3, 4, 5, 6, 7, 8, 9] (replicate 16 1) (replicate 8 0) =
     Inr [10, 10, 10, 10, 10, 10, 10, 10] \<and>
   FloyD_avx (replicate 81 INT_MAX) chain9 9 (in_order ops_avx 9) = Inl Misaligned"
proof (intro conjI)
  show "matmul 1 9 1 [1, 2, 3, 4, 5, 6, 7, 8, 9] (replicate 16 1) (replicate 8 0) =
     Inr [45, 0, 0, 0, 0, 0, 0, 0]"
    by code_simp
  show "matmul_avx 1 9 1 [1, 2, 3, 4, 5, 6, 7, 8, 9] (replicate 16 1) (replicate 8 0) =
     Inr [10, 10, 10, 10, 10, 10, 10, 10]"
    by code_simp
  show "FloyD_avx (replicate 81 INT_MAX) chain9 9 (in_order ops_avx 9) = Inl Misaligned"
    by (rule FloyD_avx_chain9)
  have fit: "2000 * 999 \<le> (2147483647 :: nat)" "999 * 3000 \<le> (2147483647 :: nat)"
    "2000 * 3000 \<le> (2147483647 :: nat)"
    by simp_all
  have v: "(0::i32) + of_nat 999 * (100 * 50) = 4995000" by simp
  have "2000 * 3000 \<le> (2000 * 3000 :: nat)" by simp
  from matmul_const [OF tail_A_def tail_B_def main_res_def this fit]
  show "\<exists>R. matmul 2000 999 3000 tail_A tail_B main_res = Inr R \<and>
      take (2000 * 3000) R = replicate (2000 * 3000) 4995000"
    unfolding v .
  have w: "(of_nat ((999 + 7) div 8) :: i32) * (100 * 50) = 625000" by simp
  have p: "(0::nat) < 2000" "(8::nat) \<le> 3000" "(0::nat) < 999" by simp_all
  note c = matmul_avx_const [OF tail_A_def tail_B_def main_lengths p fit]
  from c(1) show r: "\<exists>R. avx_cell 999 3000 tail_A tail_B 0 0 main_res = Inr R \<and>
      length R = length main_res \<and> R ! (0 * 3000 + 0) = 625000 \<and>
      avx_cell 999 3000 tail_A tail_B 0 1 R = Inl Misaligned"
    unfolding w .
  from c(2) show "matmul_avx 2000 999 3000 tail_A tail_B main_res = Inl Misaligned" .
  from r obtain d sum_vec where
    l: "vec_loop 999 3000 tail_A tail_B 0 0 0 mm256_setzero_si256 = Inr (d, sum_vec)"
    by (auto simp add: avx_cell_def split: sum.splits)
  from vec_loop_exhausts [OF l] have "d = 1000 \<and> [d..<999] = []" by simp
  with l show "\<exists>d sum_vec. vec_loop 999 3000 tail_A tail_B 0 0 0 mm256_setzero_si256 = Inr (d, sum_vec) \<and>
      d = 1000 \<and> [d..<999] = []"
    by blast
qed

end
